theory Spec2Isabelle
  imports Complex_Main
begin

section \<open>Tuning model of the collective-communication library (src/graph/tuning.cc)\<close>

text \<open>
  The development embeds the four functions of \<^verbatim>\<open>tuning.cc\<close>:
  \<^verbatim>\<open>getNthreads\<close>, \<^verbatim>\<open>parseList\<close>, \<^verbatim>\<open>ncclTopoSetThresholds\<close> and
  \<^verbatim>\<open>ncclTopoGetAlgoTime\<close>.

  Conventions of the embedding.
  \<^item> C \<^verbatim>\<open>int\<close>, \<^verbatim>\<open>ssize_t\<close> values are HOL \<open>int\<close>; the code only compares, copies and
    multiplies small counts, so no wrap-around is written out. \<^verbatim>\<open>size_t\<close> byte counts
    are \<open>nat\<close>, and \<^verbatim>\<open>x >> 6\<close> on them is \<open>x div 2 ^ 6\<close>.
  \<^item> C \<^verbatim>\<open>float\<close> and \<^verbatim>\<open>double\<close> values are idealised as \<open>real\<close>: every arithmetic
    operation is exact. The one place where rounding decides a statement, the divisor of
    the last line of \<^verbatim>\<open>ncclTopoGetAlgoTime\<close>, is modelled a second time with the
    binary32 rounding of its two multiplications (\<open>algoTimeDivisor32\<close>).
  \<^item> The fixed index ranges \<^verbatim>\<open>NCCL_NUM_FUNCTIONS\<close>, \<^verbatim>\<open>NCCL_NUM_ALGORITHMS\<close> and
    \<^verbatim>\<open>NCCL_NUM_PROTOCOLS\<close> are datatypes, in the order of the name tables
    \<^verbatim>\<open>ncclFuncStr\<close>, \<^verbatim>\<open>ncclAlgoStr\<close>, \<^verbatim>\<open>ncclProtoStr\<close>; an array indexed by them is
    a function.
  \<^item> Macros and constants declared in headers that are not part of the source file are
    fields of the record \<open>hw_consts\<close> and are parameters of every function using them.
  \<^item> \<^verbatim>\<open>WARN\<close> and \<^verbatim>\<open>INFO\<close> only log; a warning is returned next to the value where a
    function emits one, the \<^verbatim>\<open>INFO\<close> summary is left out.
\<close>

subsection \<open>Constants taken from headers\<close>

record hw_consts =
  WARP_SIZE :: int
  NCCL_MAX_NTHREADS :: int
  NCCL_LL128_MAX_NTHREADS :: int
  PCI_WIDTH :: real
  LINK_NVL :: int
  LINK_PCI :: int
  NCCL_LL_THREAD_THRESHOLD :: int
  NCCL_LL128_THREAD_THRESHOLD :: int
  NCCL_SIMPLE_THREAD_THRESHOLD :: int

subsection \<open>getNthreads\<close>

datatype nthreads_warning = NotMultipleOfWarp | AboveMaximum | BelowMinimum

text \<open>
  \<^verbatim>\<open>nt % WARP_SIZE\<close> is only evaluated for \<open>nt > 0\<close>; with a positive warp width the C
  remainder and \<open>mod\<close> agree there. The \<^verbatim>\<open>name\<close> argument is used in the log text only.
\<close>

definition getNthreads ::
  "hw_consts \<Rightarrow> string \<Rightarrow> int \<Rightarrow> int \<Rightarrow> int \<Rightarrow> int \<Rightarrow> nthreads_warning option \<times> int" where
  "getNthreads k name env mn mx def =
     (if env > 0 then
        (if env mod WARP_SIZE k \<noteq> 0 then (Some NotMultipleOfWarp, mx)
         else if env > mx then (Some AboveMaximum, mx)
         else if env < mn then (Some BelowMinimum, mn)
         else (None, env))
      else (None, def))"

subsection \<open>parseList\<close>

text \<open>
  The result codes of the library's public header; \<^verbatim>\<open>tuning.cc\<close> itself only ever
  produces \<^verbatim>\<open>ncclSuccess\<close>.
\<close>

datatype ncclResult_t =
  ncclSuccess | ncclUnhandledCudaError | ncclSystemError | ncclInternalError |
  ncclInvalidArgument | ncclInvalidUsage

text \<open>
  \<^verbatim>\<open>strcasecmp(a, b) == 0\<close> in the C locale: the strings agree after mapping the
  letters A to Z to lower case.
\<close>

definition tolower_c :: "char \<Rightarrow> char" where
  "tolower_c c =
     (case map_of (zip ''ABCDEFGHIJKLMNOPQRSTUVWXYZ'' ''abcdefghijklmnopqrstuvwxyz'') c of
        Some l \<Rightarrow> l
      | None \<Rightarrow> c)"

definition strcasecmp_eq :: "string \<Rightarrow> string \<Rightarrow> bool" where
  "strcasecmp_eq a b \<longleftrightarrow> map tolower_c a = map tolower_c b"

text \<open>
  One call of \<^verbatim>\<open>strtok_r(s, ",", &save)\<close> on the remaining text \<open>s\<close>: leading commas
  are skipped; when nothing is left the call returns \<^verbatim>\<open>NULL\<close>; otherwise the token runs up
  to the next comma, and the saved position is just behind that comma (or the end).
\<close>

definition strtok_r :: "string \<Rightarrow> (string \<times> string) option" where
  "strtok_r s =
     (let s1 = dropWhile (\<lambda>c. c = CHR '','') s in
      if s1 = [] then None
      else Some (takeWhile (\<lambda>c. c \<noteq> CHR '','') s1,
                 drop 1 (dropWhile (\<lambda>c. c \<noteq> CHR '','') s1)))"

lemma strtok_r_shorter: "strtok_r s = Some (tok, rest) \<Longrightarrow> length rest < length s"
proof -
  assume a: "strtok_r s = Some (tok, rest)"
  define s1 where "s1 = dropWhile (\<lambda>c. c = CHR '','') s"
  from a have ne: "s1 \<noteq> []" and r: "rest = drop 1 (dropWhile (\<lambda>c. c \<noteq> CHR '','') s1)"
    by (auto simp: strtok_r_def s1_def Let_def split: if_splits)
  from ne have "hd s1 \<noteq> CHR '',''"
    unfolding s1_def using hd_dropWhile [of "\<lambda>c. c = CHR '',''" s] by blast
  with ne have "length (dropWhile (\<lambda>c. c \<noteq> CHR '','') s1) < length s1"
    by (cases s1) (auto simp: le_imp_less_Suc length_dropWhile_le)
  moreover have "length s1 \<le> length s"
    by (simp add: s1_def length_dropWhile_le)
  ultimately show ?thesis using r by simp
qed

text \<open>The inner \<^verbatim>\<open>for\<close> loop of the token loop: every entry whose name matches is set.\<close>

definition setMatching :: "int \<Rightarrow> string \<Rightarrow> string list \<Rightarrow> int list \<Rightarrow> int list" where
  "setMatching st token elems list =
     fold (\<lambda>i l. if strcasecmp_eq token (elems ! i) then l[i := st] else l)
       [0..<length elems] list"

text \<open>The \<^verbatim>\<open>while (token)\<close> loop, on the text that \<^verbatim>\<open>strtok_r\<close> still has to read.\<close>

function parseTokens :: "int \<Rightarrow> string list \<Rightarrow> string \<Rightarrow> int list \<Rightarrow> int list" where
  "parseTokens st elems s list =
     (case strtok_r s of
        None \<Rightarrow> list
      | Some (token, rest) \<Rightarrow> parseTokens st elems rest (setMatching st token elems list))"
  by pat_completeness auto
termination
  by (relation "measure (\<lambda>(st, elems, s, list). length s)") (auto simp: strtok_r_shorter)

declare parseTokens.simps [simp del]

text \<open>
  \<^verbatim>\<open>nelems\<close> is the length of \<open>elems\<close>; \<open>list\<close> is the caller's array, overwritten in
  place and returned. \<^verbatim>\<open>str[0]\<close> of the empty string is the terminating NUL.
\<close>

definition parseList :: "string \<Rightarrow> string list \<Rightarrow> int list \<Rightarrow> ncclResult_t \<times> int list" where
  "parseList str elems list =
     (let (def, st, str') =
            (case str of
               c # cs \<Rightarrow> if c = CHR ''^'' then (1, 0, cs) else (0, 1, str)
             | [] \<Rightarrow> (0, 1, str));
          list1 = fold (\<lambda>i l. l[i := def]) [0..<length elems] list
      in (ncclSuccess, parseTokens st elems str' list1))"

text \<open>
  The comma-separated fields of a text, and its tokens: the fields that are not empty.
  This is the reading of the input that the token loop is compared with.
\<close>

fun comma_fields :: "string \<Rightarrow> string list" where
  "comma_fields [] = [[]]"
| "comma_fields (c # cs) =
     (if c = CHR '','' then [] # comma_fields cs
      else (case comma_fields cs of t # ts \<Rightarrow> (c # t) # ts | [] \<Rightarrow> [[c]]))"

definition tokens :: "string \<Rightarrow> string list" where
  "tokens s = filter (\<lambda>t. t \<noteq> []) (comma_fields s)"

text \<open>
  A list text is negated when it starts with the marker \<open>^\<close>; the names it lists are
  the tokens of the text behind the marker.
\<close>

definition spec_negated :: "string \<Rightarrow> bool" where
  "spec_negated str \<longleftrightarrow> (case str of c # cs \<Rightarrow> c = CHR ''^'' | [] \<Rightarrow> False)"

definition spec_listed :: "string \<Rightarrow> string list" where
  "spec_listed str = tokens (if spec_negated str then tl str else str)"

subsection \<open>Index types, tables and state\<close>

text \<open>
  The enumerators are spec_listed in the order of \<^verbatim>\<open>ncclFuncStr\<close>, \<^verbatim>\<open>ncclAlgoStr\<close> and
  \<^verbatim>\<open>ncclProtoStr\<close>, which is also the order of the rows of the constant tables
  (\<^verbatim>\<open>// Tree { LL, LL128, Simple } , Ring { LL, LL128, Simple }\<close>).
\<close>

datatype ncclColl =
  ncclCollBroadcast | ncclCollReduce | ncclCollAllGather | ncclCollReduceScatter | ncclCollAllReduce

datatype ncclAlgo = NCCL_ALGO_TREE | NCCL_ALGO_RING | NCCL_ALGO_COLLNET

datatype ncclProto = NCCL_PROTO_LL | NCCL_PROTO_LL128 | NCCL_PROTO_SIMPLE

fun collIdx :: "ncclColl \<Rightarrow> nat" where
  "collIdx ncclCollBroadcast = 0"
| "collIdx ncclCollReduce = 1"
| "collIdx ncclCollAllGather = 2"
| "collIdx ncclCollReduceScatter = 3"
| "collIdx ncclCollAllReduce = 4"

fun algoIdx :: "ncclAlgo \<Rightarrow> nat" where
  "algoIdx NCCL_ALGO_TREE = 0"
| "algoIdx NCCL_ALGO_RING = 1"
| "algoIdx NCCL_ALGO_COLLNET = 2"

fun protoIdx :: "ncclProto \<Rightarrow> nat" where
  "protoIdx NCCL_PROTO_LL = 0"
| "protoIdx NCCL_PROTO_LL128 = 1"
| "protoIdx NCCL_PROTO_SIMPLE = 2"

definition allColls :: "ncclColl list" where
  "allColls = [ncclCollBroadcast, ncclCollReduce, ncclCollAllGather, ncclCollReduceScatter,
               ncclCollAllReduce]"

definition allAlgos :: "ncclAlgo list" where
  "allAlgos = [NCCL_ALGO_TREE, NCCL_ALGO_RING, NCCL_ALGO_COLLNET]"

definition allProtos :: "ncclProto list" where
  "allProtos = [NCCL_PROTO_LL, NCCL_PROTO_LL128, NCCL_PROTO_SIMPLE]"

definition ncclAlgoStr :: "string list" where
  "ncclAlgoStr = [''Tree'', ''Ring'', ''CollNet'']"

definition ncclProtoStr :: "string list" where
  "ncclProtoStr = [''LL'', ''LL128'', ''Simple'']"

definition baseLat :: "real list list" where
  "baseLat = [[37.9, 37.9, 40.4], [20.5, 20.5, 27.9], [37.9, 37.9, 40.4]]"

definition NCCL_HW_NVLINK :: nat where "NCCL_HW_NVLINK = 0"
definition NCCL_HW_PCI :: nat where "NCCL_HW_PCI = 1"
definition NCCL_HW_NET :: nat where "NCCL_HW_NET = 2"

definition hwLat :: "real list list list" where
  "hwLat =
     [[[1.2, 1.2, 3.8], [2.3, 2.3, 2.7], [1.2, 1.2, 3.8]],
      [[2.2, 2.2, 5.7], [1.3, 1.3, 1.9], [2.2, 2.2, 5.7]],
      [[9.8, 9.8, 19.5], [2.0, 2.0, 4.5], [9.8, 9.8, 19.5]]]"

definition ll128MaxBw :: "real list" where
  "ll128MaxBw = [113.0, 72.0, 110.0, 91.0, 100.0]"

definition treeCorrectionFactor :: "real list list" where
  "treeCorrectionFactor =
     [[1.0, 1.0, 1.0, 1.0, 1.0, 1.0, 1.0, 0.84, 0.49, 0.42, 0.60, 0.75, 0.87, 0.94, 0.94, 0.99,
       1.0, 1.0, 1.0, 1.0, 1.0, 1.0],
      [1.0, 1.0, 1.0, 1.0, 1.0, 1.0, 1.0, 0.84, 0.49, 0.42, 0.60, 0.75, 0.87, 0.94, 0.94, 0.99,
       1.0, 1.0, 1.0, 1.0, 1.0, 1.0],
      [1.0, 1.0, 1.0, 1.0, 1.0, 1.0, 0.41, 0.27, 0.25, 0.39, 0.46, 0.72, 0.76, 0.87, 0.92, 0.97,
       1.0, 1.0, 1.0, 1.0, 1.0, 1.0]]"

definition ringCorrectionFactor :: "real list list" where
  "ringCorrectionFactor =
     [[1.0, 1.0, 1.0, 1.0, 1.0, 1.0, 0.25, 0.41, 0.55, 0.56, 0.78, 0.94, 1.0, 1.0, 1.0, 1.0,
       1.0, 1.0, 1.0, 1.0, 1.0, 1.0],
      [1.0, 1.0, 1.0, 1.0, 1.0, 1.0, 0.25, 0.41, 0.55, 0.56, 0.78, 0.94, 1.0, 1.0, 1.0, 1.0,
       1.0, 1.0, 1.0, 1.0, 1.0, 1.0],
      [1.0, 1.0, 1.0, 1.0, 1.0, 1.0, 0.04, 0.08, 0.09, 0.09, 0.11, 0.13, 0.25, 0.40, 0.59, 0.76,
       0.86, 1.0, 1.0, 1.0, 1.0, 1.0]]"

text \<open>The fields of \<^verbatim>\<open>struct ncclTopoGraph\<close> that the file reads.\<close>

record ncclTopoGraph =
  nChannels :: int
  speedIntra :: real
  speedInter :: real
  typeIntra :: int
  typeInter :: int
  sameChannels :: int

text \<open>The fields of \<^verbatim>\<open>struct ncclComm\<close> that the file reads or writes.\<close>

record ncclComm =
  rank :: int
  nRanks :: int
  nNodes :: int
  maxThreads :: "ncclAlgo \<Rightarrow> ncclProto \<Rightarrow> int"
  bandwidths :: "ncclColl \<Rightarrow> ncclAlgo \<Rightarrow> ncclProto \<Rightarrow> real"
  latencies :: "ncclColl \<Rightarrow> ncclAlgo \<Rightarrow> ncclProto \<Rightarrow> real"
  threadThresholds :: "ncclAlgo \<Rightarrow> ncclProto \<Rightarrow> int"

record ncclInfo =
  comm :: ncclComm
  coll :: ncclColl
  nBytes :: nat

text \<open>
  What the process environment supplies: the values of the two \<^verbatim>\<open>NCCL_PARAM\<close>
  accessors (\<open>-2\<close> when the variable is unset) and the three \<^verbatim>\<open>getenv\<close> results
  (\<open>None\<close> for \<^verbatim>\<open>NULL\<close>).
\<close>

record tuning_env =
  ncclParamNthreads :: int
  ncclParamLl128Nthreads :: int
  NCCL_PROTO :: "string option"
  NCCL_ALGO :: "string option"
  NCCL_THREAD_THRESHOLDS :: "string option"

definition upd2 :: "('a \<Rightarrow> 'p \<Rightarrow> 'v) \<Rightarrow> 'a \<Rightarrow> 'p \<Rightarrow> 'v \<Rightarrow> ('a \<Rightarrow> 'p \<Rightarrow> 'v)" where
  "upd2 t a p v = t(a := (t a)(p := v))"

definition upd3 ::
  "('c \<Rightarrow> 'a \<Rightarrow> 'p \<Rightarrow> 'v) \<Rightarrow> 'c \<Rightarrow> 'a \<Rightarrow> 'p \<Rightarrow> 'v \<Rightarrow> ('c \<Rightarrow> 'a \<Rightarrow> 'p \<Rightarrow> 'v)" where
  "upd3 t c a p v = t(c := upd2 (t c) a p v)"

text \<open>
  Modelled from the spec: \<^verbatim>\<open>log2i\<close> is declared in a header that is not part of the
  source file. The spec describes it as \<open>floor(log2(x))\<close>; at \<open>0\<close>, where the logarithm
  has no value, the result is taken to be \<open>0\<close>.
\<close>

fun log2i :: "nat \<Rightarrow> nat" where
  "log2i n = (if n < 2 then 0 else Suc (log2i (n div 2)))"

declare log2i.simps [simp del]

subsection \<open>Binary32 rounding\<close>

text \<open>
  A C \<^verbatim>\<open>float\<close> is an IEEE 754 binary32 value: zero, or \<open>m * 2 powi e\<close> with an integer
  \<open>\<bar>m\<bar> < 2 ^ 24\<close> and \<open>-149 \<le> e \<le> 104\<close>, or an infinity, or a NaN. The sign of a zero
  or of an infinity is not kept here. \<open>rne\<close> rounds a real to the nearest integer, a tie
  going to the even one. \<open>f32_exponent x\<close> is the exponent of the binary32 grid around
  \<open>x\<close>: the greatest \<open>e\<close> from 104 down to \<open>-148\<close> with \<open>2 powi (e + 23) \<le> \<bar>x\<bar>\<close>, and \<open>-149\<close>
  (the subnormal grid) when there is none. \<open>round32 x\<close> is the binary32 value that a
  floating-point operation with the exact result \<open>x\<close> returns in the default rounding
  mode; \<open>fmul32\<close> is the binary32 product.
\<close>

datatype f32val = Finite real | Infinite | NaN

definition rne :: "real \<Rightarrow> int" where
  "rne x =
     (let f = \<lfloor>x\<rfloor>; d = x - of_int f in
      if d < 1 / 2 then f
      else if 1 / 2 < d then f + 1
      else if even f then f else f + 1)"

function f32_exp_from :: "int \<Rightarrow> real \<Rightarrow> int" where
  "f32_exp_from e x =
     (if e \<le> - 149 then - 149
      else if 2 powi (e + 23) \<le> \<bar>x\<bar> then e
      else f32_exp_from (e - 1) x)"
  by pat_completeness auto
termination
  by (relation "measure (\<lambda>(e, x). nat (e + 149))") auto

declare f32_exp_from.simps [simp del]

definition f32_exponent :: "real \<Rightarrow> int" where
  "f32_exponent x = f32_exp_from 104 x"

definition round32_fin :: "real \<Rightarrow> real" where
  "round32_fin x = of_int (rne (x / 2 powi f32_exponent x)) * 2 powi f32_exponent x"

definition round32 :: "real \<Rightarrow> f32val" where
  "round32 x = (if 2 powi 128 \<le> \<bar>round32_fin x\<bar> then Infinite else Finite (round32_fin x))"

definition is_f32 :: "real \<Rightarrow> bool" where
  "is_f32 x \<longleftrightarrow> round32 x = Finite x"

fun fmul32 :: "f32val \<Rightarrow> f32val \<Rightarrow> f32val" where
  "fmul32 (Finite x) (Finite y) = round32 (x * y)"
| "fmul32 (Finite x) Infinite = (if x = 0 then NaN else Infinite)"
| "fmul32 Infinite (Finite y) = (if y = 0 then NaN else Infinite)"
| "fmul32 Infinite Infinite = Infinite"
| "fmul32 NaN v = NaN"
| "fmul32 v NaN = NaN"

subsection \<open>ncclTopoSetThresholds\<close>

text \<open>Lines 81 to 89: the thread ceilings. \<^verbatim>\<open>NCCL_LL128_MAX_NTHREADS/4\<close> is \<open>div\<close>.\<close>

definition setMaxThreads :: "hw_consts \<Rightarrow> tuning_env \<Rightarrow> ncclTopoGraph \<Rightarrow> ncclComm \<Rightarrow> ncclComm" where
  "setMaxThreads k env ringGraph cm =
     (let simpleDefaultThreads =
            (if speedIntra ringGraph * of_int (nChannels ringGraph) \<le> PCI_WIDTH k then 256
             else NCCL_MAX_NTHREADS k);
          ringSimple = snd (getNthreads k ''NCCL_NTHREADS'' (ncclParamNthreads env)
                         (4 * WARP_SIZE k) (NCCL_MAX_NTHREADS k) simpleDefaultThreads);
          simple = snd (getNthreads k ''NCCL_NTHREADS'' (ncclParamNthreads env)
                         (4 * WARP_SIZE k) (NCCL_MAX_NTHREADS k) (NCCL_MAX_NTHREADS k));
          ll = snd (getNthreads k ''NCCL_NTHREADS'' (ncclParamNthreads env)
                         (4 * WARP_SIZE k) (NCCL_MAX_NTHREADS k) (NCCL_MAX_NTHREADS k));
          ll128 = snd (getNthreads k ''NCCL_LL128_NTHREADS'' (ncclParamLl128Nthreads env)
                         (NCCL_LL128_MAX_NTHREADS k div 4) (NCCL_LL128_MAX_NTHREADS k)
                         (NCCL_LL128_MAX_NTHREADS k));
          m1 = upd2 (maxThreads cm) NCCL_ALGO_RING NCCL_PROTO_SIMPLE ringSimple;
          m2 = upd2 m1 NCCL_ALGO_COLLNET NCCL_PROTO_SIMPLE simple;
          m3 = upd2 m2 NCCL_ALGO_TREE NCCL_PROTO_SIMPLE simple;
          m4 = upd2 m3 NCCL_ALGO_COLLNET NCCL_PROTO_LL ll;
          m5 = upd2 m4 NCCL_ALGO_TREE NCCL_PROTO_LL ll;
          m6 = upd2 m5 NCCL_ALGO_RING NCCL_PROTO_LL ll;
          m7 = upd2 m6 NCCL_ALGO_COLLNET NCCL_PROTO_LL128 ll128;
          m8 = upd2 m7 NCCL_ALGO_TREE NCCL_PROTO_LL128 ll128;
          m9 = upd2 m8 NCCL_ALGO_RING NCCL_PROTO_LL128 ll128
      in cm\<lparr>maxThreads := m9\<rparr>)"

text \<open>Lines 93 to 96: the graph of each algorithm and its hardware classes.\<close>

definition graphsOf ::
  "ncclTopoGraph \<Rightarrow> ncclTopoGraph \<Rightarrow> ncclTopoGraph \<Rightarrow> ncclAlgo \<Rightarrow> ncclTopoGraph" where
  "graphsOf treeGraph ringGraph collNetGraph a =
     (case a of NCCL_ALGO_TREE \<Rightarrow> treeGraph
              | NCCL_ALGO_RING \<Rightarrow> ringGraph
              | NCCL_ALGO_COLLNET \<Rightarrow> collNetGraph)"

definition intraHw :: "hw_consts \<Rightarrow> (ncclAlgo \<Rightarrow> ncclTopoGraph) \<Rightarrow> ncclAlgo \<Rightarrow> nat" where
  "intraHw k graphs a = (if typeIntra (graphs a) = LINK_NVL k then NCCL_HW_NVLINK else NCCL_HW_PCI)"

definition hw :: "hw_consts \<Rightarrow> (ncclAlgo \<Rightarrow> ncclTopoGraph) \<Rightarrow> int \<Rightarrow> ncclAlgo \<Rightarrow> nat" where
  "hw k graphs nN a = (if nN = 1 then intraHw k graphs a else NCCL_HW_NET)"

text \<open>Lines 99 to 101.\<close>

definition nsteps :: "int \<Rightarrow> ncclColl \<Rightarrow> int" where
  "nsteps nR cl =
     (if cl = ncclCollAllReduce then 2 * (nR - 1)
      else if cl = ncclCollReduceScatter \<or> cl = ncclCollAllGather then nR - 1
      else nR)"

text \<open>
  Lines 107 to 118: the bus bandwidth of one cell, each refinement applied in the order of
  the source. \<open>nN\<close> is \<^verbatim>\<open>comm->nNodes\<close>.
\<close>

definition busBw :: "(ncclAlgo \<Rightarrow> ncclTopoGraph) \<Rightarrow> int \<Rightarrow> ncclColl \<Rightarrow> ncclAlgo \<Rightarrow> ncclProto \<Rightarrow> real" where
  "busBw graphs nN cl a p =
     (let speed = (if nN \<le> 2 \<or> a = NCCL_ALGO_COLLNET then speedIntra (graphs a)
                   else speedInter (graphs a));
          b0 = of_int (nChannels (graphs a)) * speed;
          b1 = (if a = NCCL_ALGO_RING \<and> p = NCCL_PROTO_LL then b0 * (1 / 5) else b0);
          b2 = (if a = NCCL_ALGO_RING \<and> p = NCCL_PROTO_LL128
                then min (b1 * 120 / 128) (ll128MaxBw ! collIdx cl) else b1);
          b3 = (if a = NCCL_ALGO_TREE then min (b2 * 0.27) (if nN > 1 then 70 else 90) else b2);
          b4 = (if a = NCCL_ALGO_TREE \<and> p = NCCL_PROTO_LL then b3 * (1 / 2.3) else b3);
          b5 = (if a = NCCL_ALGO_TREE \<and> p = NCCL_PROTO_LL128 then b4 * (7 / 9) else b4);
          b6 = (if a = NCCL_ALGO_COLLNET then b5 * 0.9 else b5);
          b7 = (if a = NCCL_ALGO_COLLNET \<and> p = NCCL_PROTO_LL then b6 * (1 / 6) else b6);
          b8 = (if a = NCCL_ALGO_COLLNET \<and> p = NCCL_PROTO_LL128 then 0 else b7)
      in b8)"

text \<open>Line 121: the factor from bus bandwidth to algorithm bandwidth.\<close>

definition ratio :: "int \<Rightarrow> ncclColl \<Rightarrow> ncclAlgo \<Rightarrow> real" where
  "ratio nR cl a =
     (if a \<noteq> NCCL_ALGO_RING then 0.5 else (1 * of_int nR) / of_int (nsteps nR cl))"

text \<open>
  Lines 124 to 147: the latency of one cell. \<^verbatim>\<open>comm->nRanks/comm->nNodes\<close> is integer
  division; the code runs it with positive operands, where it is \<open>div\<close>. For
  \<^verbatim>\<open>nNodes\<close> = 0 the C division has no defined result; no statement below depends on
  the latency value there.
\<close>

definition cellLatency ::
  "hw_consts \<Rightarrow> (ncclAlgo \<Rightarrow> ncclTopoGraph) \<Rightarrow> ncclTopoGraph \<Rightarrow> int \<Rightarrow> int \<Rightarrow>
   ncclColl \<Rightarrow> ncclAlgo \<Rightarrow> ncclProto \<Rightarrow> real" where
  "cellLatency k graphs ringGraph nR nN cl a p =
     (let l0 = baseLat ! algoIdx a ! protoIdx p in
      if a = NCCL_ALGO_RING then
        (let lat = hwLat ! hw k graphs nN a ! algoIdx a ! protoIdx p in
         if cl = ncclCollReduce \<or> cl = ncclCollBroadcast then
           (if sameChannels ringGraph \<noteq> 0 then l0 + lat
            else
              (let lat' = (if p = NCCL_PROTO_SIMPLE
                           then hwLat ! hw k graphs nN a ! algoIdx NCCL_ALGO_TREE ! protoIdx p
                           else lat)
               in l0 + of_int (nsteps nR cl) * lat'))
         else l0 + of_int (nsteps nR cl) * lat)
      else if a = NCCL_ALGO_TREE then
        (let intraLat = hwLat ! intraHw k graphs a ! algoIdx a ! protoIdx p;
             interLat = hwLat ! NCCL_HW_NET ! algoIdx a ! protoIdx p
         in l0 + 2 * (of_int (nR div nN - 1) * intraLat + of_nat (log2i (nat nN)) * interLat))
      else
        (let intraLat = hwLat ! intraHw k graphs a ! algoIdx a ! protoIdx p;
             interLat = hwLat ! NCCL_HW_NET ! algoIdx a ! protoIdx p
         in l0 + (of_int (2 * (nR div nN - 1)) * intraLat + interLat)))"

text \<open>The body of the innermost loop (lines 107 to 147) for one \<open>(coll, a, p)\<close>.\<close>

definition modelCell ::
  "hw_consts \<Rightarrow> (ncclAlgo \<Rightarrow> ncclTopoGraph) \<Rightarrow> ncclTopoGraph \<Rightarrow>
   ncclColl \<Rightarrow> ncclAlgo \<Rightarrow> ncclProto \<Rightarrow> ncclComm \<Rightarrow> ncclComm" where
  "modelCell k graphs ringGraph cl a p cm =
     cm\<lparr>bandwidths := upd3 (bandwidths cm) cl a p
            (busBw graphs (nNodes cm) cl a p * ratio (nRanks cm) cl a),
        latencies := upd3 (latencies cm) cl a p
            (cellLatency k graphs ringGraph (nRanks cm) (nNodes cm) cl a p)\<rparr>"

text \<open>The three nested loops of lines 98 to 150, with the \<^verbatim>\<open>continue\<close> of line 104.\<close>

definition modelProtos ::
  "hw_consts \<Rightarrow> (ncclAlgo \<Rightarrow> ncclTopoGraph) \<Rightarrow> ncclTopoGraph \<Rightarrow>
   ncclColl \<Rightarrow> ncclAlgo \<Rightarrow> ncclProto list \<Rightarrow> ncclComm \<Rightarrow> ncclComm" where
  "modelProtos k graphs ringGraph cl a ps cm = fold (modelCell k graphs ringGraph cl a) ps cm"

definition modelAlgos ::
  "hw_consts \<Rightarrow> (ncclAlgo \<Rightarrow> ncclTopoGraph) \<Rightarrow> ncclTopoGraph \<Rightarrow>
   ncclColl \<Rightarrow> ncclAlgo list \<Rightarrow> ncclComm \<Rightarrow> ncclComm" where
  "modelAlgos k graphs ringGraph cl as cm =
     fold (\<lambda>a cm. if cl \<noteq> ncclCollAllReduce \<and> a \<noteq> NCCL_ALGO_RING then cm
                   else modelProtos k graphs ringGraph cl a allProtos cm) as cm"

definition modelTables ::
  "hw_consts \<Rightarrow> (ncclAlgo \<Rightarrow> ncclTopoGraph) \<Rightarrow> ncclTopoGraph \<Rightarrow>
   ncclColl list \<Rightarrow> ncclComm \<Rightarrow> ncclComm" where
  "modelTables k graphs ringGraph cls cm =
     fold (\<lambda>cl cm. modelAlgos k graphs ringGraph cl allAlgos cm) cls cm"

text \<open>
  Lines 154 to 160: the two enable arrays with their initial values, overwritten by
  \<^verbatim>\<open>parseList\<close> when the variable is set; the result code is the one \<^verbatim>\<open>NCCLCHECK\<close>
  tests.
\<close>

definition readProtoEnable :: "tuning_env \<Rightarrow> ncclResult_t \<times> int list" where
  "readProtoEnable env =
     (case NCCL_PROTO env of
        None \<Rightarrow> (ncclSuccess, [1, 2, 1])
      | Some protoStr \<Rightarrow> parseList protoStr ncclProtoStr [1, 2, 1])"

definition readAlgoEnable :: "tuning_env \<Rightarrow> ncclResult_t \<times> int list" where
  "readAlgoEnable env =
     (case NCCL_ALGO env of
        None \<Rightarrow> (ncclSuccess, [1, 1, 1])
      | Some algoStr \<Rightarrow> parseList algoStr ncclAlgoStr [1, 1, 1])"

text \<open>
  Lines 162 to 169. \<open>pEnable\<close> is the value tested on line 168 for one cell: the entry of
  \<^verbatim>\<open>protoEnable\<close>, replaced for LL128 by the automatic choice when it still holds \<open>2\<close>.
\<close>

definition pEnable ::
  "hw_consts \<Rightarrow> (ncclAlgo \<Rightarrow> ncclTopoGraph) \<Rightarrow> int \<Rightarrow> int \<Rightarrow> int list \<Rightarrow>
   ncclAlgo \<Rightarrow> ncclProto \<Rightarrow> int" where
  "pEnable k graphs minCompCap maxCompCap protoEnable a p =
     (let pe = protoEnable ! protoIdx p in
      if pe = 2 \<and> p = NCCL_PROTO_LL128 then
        (if typeInter (graphs a) \<le> LINK_PCI k \<and> typeIntra (graphs a) = LINK_NVL k \<and>
            minCompCap = 70 \<and> maxCompCap = 70 then 1 else 0)
      else pe)"

definition enableCell ::
  "hw_consts \<Rightarrow> (ncclAlgo \<Rightarrow> ncclTopoGraph) \<Rightarrow> int \<Rightarrow> int \<Rightarrow> int list \<Rightarrow> int list \<Rightarrow>
   ncclColl \<times> ncclAlgo \<times> ncclProto \<Rightarrow> ncclComm \<Rightarrow> ncclComm" where
  "enableCell k graphs minCompCap maxCompCap protoEnable algoEnable cap cm =
     (case cap of (c, a, p) \<Rightarrow>
        if pEnable k graphs minCompCap maxCompCap protoEnable a p = 0 \<or>
           algoEnable ! algoIdx a = 0
        then cm\<lparr>bandwidths := upd3 (bandwidths cm) c a p 0\<rparr>
        else cm)"

definition allCells :: "(ncclColl \<times> ncclAlgo \<times> ncclProto) list" where
  "allCells = concat (map (\<lambda>c. concat (map (\<lambda>a. map (\<lambda>p. (c, a, p)) allProtos) allAlgos)) allColls)"

definition applyEnables ::
  "hw_consts \<Rightarrow> (ncclAlgo \<Rightarrow> ncclTopoGraph) \<Rightarrow> int \<Rightarrow> int \<Rightarrow> int list \<Rightarrow> int list \<Rightarrow>
   ncclComm \<Rightarrow> ncclComm" where
  "applyEnables k graphs minCompCap maxCompCap protoEnable algoEnable cm =
     fold (enableCell k graphs minCompCap maxCompCap protoEnable algoEnable) allCells cm"

text \<open>
  \<^verbatim>\<open>sscanf(str, "%ld %ld %ld %ld %ld %ld", ...)\<close>. One \<^verbatim>\<open>%ld\<close> conversion skips white
  space, reads an optional sign and a non-empty run of decimal digits; the scan stops at
  the first conversion that fails, leaving the remaining targets untouched. The values
  are read as unbounded integers.
\<close>

definition isspace_c :: "char \<Rightarrow> bool" where
  "isspace_c c \<longleftrightarrow> c \<in> set [CHR '' '', CHR 0x09, CHR 0x0A, CHR 0x0B, CHR 0x0C, CHR 0x0D]"

definition digit_val :: "char \<Rightarrow> int option" where
  "digit_val c = map_of (zip ''0123456789'' [0, 1, 2, 3, 4, 5, 6, 7, 8, 9]) c"

definition isdigit_c :: "char \<Rightarrow> bool" where
  "isdigit_c c \<longleftrightarrow> digit_val c \<noteq> None"

definition scan_ld :: "string \<Rightarrow> (int \<times> string) option" where
  "scan_ld s =
     (let s1 = dropWhile isspace_c s;
          (neg, s2) = (case s1 of
                         c # cs \<Rightarrow> if c = CHR ''-'' then (True, cs)
                                   else if c = CHR ''+'' then (False, cs)
                                   else (False, s1)
                       | [] \<Rightarrow> (False, s1));
          ds = takeWhile isdigit_c s2;
          v = foldl (\<lambda>acc d. 10 * acc + (case digit_val d of Some x \<Rightarrow> x | None \<Rightarrow> 0)) 0 ds
      in if ds = [] then None
         else Some (if neg then - v else v, dropWhile isdigit_c s2))"

fun sscanf_ld :: "nat \<Rightarrow> string \<Rightarrow> int list" where
  "sscanf_ld 0 s = []"
| "sscanf_ld (Suc n) s =
     (case scan_ld s of None \<Rightarrow> [] | Some (v, rest) \<Rightarrow> v # sscanf_ld n rest)"

text \<open>
  Line 209: the array \<^verbatim>\<open>t\<close> has \<^verbatim>\<open>NCCL_NUM_ALGORITHMS\<close> = 3 rows and the initialiser
  gives two of them; C++ zero-initialises the third. Line 210 stores the converted values
  into \<^verbatim>\<open>t[0][0..2]\<close> and \<^verbatim>\<open>t[1][0..2]\<close>, in this order.
\<close>

definition thresholds_t0 :: "int list list" where
  "thresholds_t0 = [[-2, -2, -2], [-2, -2, -2], [0, 0, 0]]"

definition sscanf_targets :: "(nat \<times> nat) list" where
  "sscanf_targets = [(0, 0), (0, 1), (0, 2), (1, 0), (1, 1), (1, 2)]"

definition scanThresholds :: "string \<Rightarrow> int list list" where
  "scanThresholds str =
     fold (\<lambda>((a, p), v) t. t[a := (t ! a)[p := v]])
       (zip sscanf_targets (sscanf_ld 6 str)) thresholds_t0"

text \<open>Lines 199 to 204: the default thresholds.\<close>

definition defaultThresholds :: "hw_consts \<Rightarrow> ncclComm \<Rightarrow> ncclComm" where
  "defaultThresholds k cm =
     (let cm1 = fold (\<lambda>a cm. cm\<lparr>threadThresholds :=
                  upd2 (upd2 (upd2 (threadThresholds cm)
                     a NCCL_PROTO_LL (NCCL_LL_THREAD_THRESHOLD k))
                     a NCCL_PROTO_LL128 (NCCL_LL128_THREAD_THRESHOLD k))
                     a NCCL_PROTO_SIMPLE (NCCL_SIMPLE_THREAD_THRESHOLD k)\<rparr>) allAlgos cm
      in cm1\<lparr>threadThresholds := upd2 (threadThresholds cm1) NCCL_ALGO_RING NCCL_PROTO_LL
                (threadThresholds cm1 NCCL_ALGO_RING NCCL_PROTO_LL * nRanks cm1)\<rparr>)"

text \<open>Lines 207 to 216: the override from the environment.\<close>

definition allAlgoProtos :: "(ncclAlgo \<times> ncclProto) list" where
  "allAlgoProtos = concat (map (\<lambda>a. map (\<lambda>p. (a, p)) allProtos) allAlgos)"

definition overrideThresholds :: "tuning_env \<Rightarrow> ncclComm \<Rightarrow> ncclComm" where
  "overrideThresholds env cm =
     (case NCCL_THREAD_THRESHOLDS env of
        None \<Rightarrow> cm
      | Some str \<Rightarrow>
          (let t = scanThresholds str in
           fold (\<lambda>(a, p) cm.
                   if t ! algoIdx a ! protoIdx p \<ge> 0
                   then cm\<lparr>threadThresholds :=
                          upd2 (threadThresholds cm) a p (t ! algoIdx a ! protoIdx p)\<rparr>
                   else cm) allAlgoProtos cm))"

text \<open>
  The whole function. \<^verbatim>\<open>NCCLCHECK\<close> returns the callee's result when it is not
  \<^verbatim>\<open>ncclSuccess\<close>. The summary printed by rank 0 (lines 171 to 196 and 218 to 227)
  changes no state and is not modelled.
\<close>

definition ncclTopoSetThresholds ::
  "hw_consts \<Rightarrow> tuning_env \<Rightarrow> ncclComm \<Rightarrow> int \<Rightarrow> int \<Rightarrow>
   ncclTopoGraph \<Rightarrow> ncclTopoGraph \<Rightarrow> ncclTopoGraph \<Rightarrow> ncclResult_t \<times> ncclComm" where
  "ncclTopoSetThresholds k env cm0 minCompCap maxCompCap treeGraph ringGraph collNetGraph =
     (let cm1 = setMaxThreads k env ringGraph cm0 in
      if nRanks cm1 \<le> 1 then (ncclSuccess, cm1)
      else
        (let graphs = graphsOf treeGraph ringGraph collNetGraph;
             cm2 = modelTables k graphs ringGraph allColls cm1;
             (r1, protoEnable) = readProtoEnable env
         in if r1 \<noteq> ncclSuccess then (r1, cm2)
            else
              (let (r2, algoEnable) = readAlgoEnable env
               in if r2 \<noteq> ncclSuccess then (r2, cm2)
                  else
                    (let cm3 = applyEnables k graphs minCompCap maxCompCap
                                 protoEnable algoEnable cm2;
                         cm4 = defaultThresholds k cm3;
                         cm5 = overrideThresholds env cm4
                     in (ncclSuccess, cm5)))))"

subsection \<open>ncclTopoGetAlgoTime\<close>

text \<open>
  The pair returned is the result code and the value stored through \<^verbatim>\<open>time\<close>.
  \<^verbatim>\<open>info->nBytes >> 6\<close> is \<open>nBytes div 2 ^ 6\<close>. \<open>correctedBw\<close> is the value of
  \<^verbatim>\<open>bw\<close> after lines 251 and 252 in exact arithmetic; line 253 divides by
  \<open>1000 * correctedBw\<close>. The rounding of these two products is the subject of
  \<open>correctedBw32\<close> and \<open>algoTimeDivisor32\<close> below.
\<close>

definition correctedBw :: "real \<Rightarrow> nat \<Rightarrow> ncclAlgo \<Rightarrow> ncclProto \<Rightarrow> real" where
  "correctedBw bw nb algorithm protocol =
     (let logSize = log2i (nb div 2 ^ 6) in
      if algorithm = NCCL_ALGO_TREE \<and> logSize < 22
      then bw * (treeCorrectionFactor ! protoIdx protocol ! logSize)
      else if algorithm = NCCL_ALGO_RING \<and> logSize < 22
      then bw * (ringCorrectionFactor ! protoIdx protocol ! logSize)
      else bw)"

definition ncclTopoGetAlgoTime :: "ncclInfo \<Rightarrow> ncclAlgo \<Rightarrow> ncclProto \<Rightarrow> ncclResult_t \<times> real" where
  "ncclTopoGetAlgoTime info algorithm protocol =
     (let bw = bandwidths (comm info) (coll info) algorithm protocol in
      if bw = 0 then (ncclSuccess, - 1.0)
      else
        (let bw' = correctedBw bw (nBytes info) algorithm protocol
         in (ncclSuccess,
             latencies (comm info) (coll info) algorithm protocol
               + of_nat (nBytes info) / (1000 * bw'))))"

text \<open>
  The divisor of line 253 as the code computes it. \<^verbatim>\<open>bw\<close> is a \<^verbatim>\<open>float\<close> and the two
  tables are \<^verbatim>\<open>static float\<close>, so line 251 or 252 stores the binary32 product of the
  cell and the table entry as stored in binary32; \<^verbatim>\<open>1000 * bw\<close> is the binary32 product
  of 1000 and that value. The result is \<open>None\<close> when the function returns at line 248
  without dividing.
\<close>

definition correctedBw32 :: "real \<Rightarrow> nat \<Rightarrow> ncclAlgo \<Rightarrow> ncclProto \<Rightarrow> f32val" where
  "correctedBw32 bw nb algorithm protocol =
     (let logSize = log2i (nb div 2 ^ 6) in
      if algorithm = NCCL_ALGO_TREE \<and> logSize < 22
      then fmul32 (Finite bw) (round32 (treeCorrectionFactor ! protoIdx protocol ! logSize))
      else if algorithm = NCCL_ALGO_RING \<and> logSize < 22
      then fmul32 (Finite bw) (round32 (ringCorrectionFactor ! protoIdx protocol ! logSize))
      else Finite bw)"

definition algoTimeDivisor32 :: "ncclInfo \<Rightarrow> ncclAlgo \<Rightarrow> ncclProto \<Rightarrow> f32val option" where
  "algoTimeDivisor32 info algorithm protocol =
     (let bw = bandwidths (comm info) (coll info) algorithm protocol in
      if bw = 0 then None
      else Some (fmul32 (Finite 1000) (correctedBw32 bw (nBytes info) algorithm protocol)))"

text \<open>
  The spec's reading of lines 250 to 252, to compare the code with: the size bucket of a
  byte count, and the factor applied to the bandwidth for a bucket (the table entry for
  Tree and Ring in buckets below 22, no correction otherwise).
\<close>

definition spec_correction :: "ncclAlgo \<Rightarrow> ncclProto \<Rightarrow> nat \<Rightarrow> real" where
  "spec_correction a p b =
     (if b < 22 then
        (case a of
           NCCL_ALGO_TREE \<Rightarrow> treeCorrectionFactor ! protoIdx p ! b
         | NCCL_ALGO_RING \<Rightarrow> ringCorrectionFactor ! protoIdx p ! b
         | NCCL_ALGO_COLLNET \<Rightarrow> 1)
      else 1)"

definition spec_sizeBucket :: "nat \<Rightarrow> nat" where
  "spec_sizeBucket nb = log2i (nb div 2 ^ 6)"

text \<open>The same factor with each table entry as it is stored in binary32.\<close>

definition spec_correction32 :: "ncclAlgo \<Rightarrow> ncclProto \<Rightarrow> nat \<Rightarrow> real" where
  "spec_correction32 a p b =
     (if b < 22 then
        (case a of
           NCCL_ALGO_TREE \<Rightarrow> round32_fin (treeCorrectionFactor ! protoIdx p ! b)
         | NCCL_ALGO_RING \<Rightarrow> round32_fin (ringCorrectionFactor ! protoIdx p ! b)
         | NCCL_ALGO_COLLNET \<Rightarrow> 1)
      else 1)"

text \<open>
  The spec's reading of \<^verbatim>\<open>ncclTopoSetThresholds\<close>, to compare the code with: where an
  algorithm applies to a collective kind, the step count of a kind, the threshold
  computed by lines 199 to 204 for one cell, and when a cell counts as disabled (the test
  of line 168, on the arrays read from the environment).
\<close>

definition spec_applies :: "ncclColl \<Rightarrow> ncclAlgo \<Rightarrow> bool" where
  "spec_applies cl a \<longleftrightarrow> cl = ncclCollAllReduce \<or> a = NCCL_ALGO_RING"

definition spec_nsteps :: "int \<Rightarrow> ncclColl \<Rightarrow> int" where
  "spec_nsteps n cl =
     (case cl of
        ncclCollAllReduce \<Rightarrow> 2 * (n - 1)
      | ncclCollReduceScatter \<Rightarrow> n - 1
      | ncclCollAllGather \<Rightarrow> n - 1
      | ncclCollBroadcast \<Rightarrow> n
      | ncclCollReduce \<Rightarrow> n)"

definition computedThreshold :: "hw_consts \<Rightarrow> int \<Rightarrow> ncclAlgo \<Rightarrow> ncclProto \<Rightarrow> int" where
  "computedThreshold k nR a p =
     (case p of
        NCCL_PROTO_LL \<Rightarrow>
          (if a = NCCL_ALGO_RING then NCCL_LL_THREAD_THRESHOLD k * nR
           else NCCL_LL_THREAD_THRESHOLD k)
      | NCCL_PROTO_LL128 \<Rightarrow> NCCL_LL128_THREAD_THRESHOLD k
      | NCCL_PROTO_SIMPLE \<Rightarrow> NCCL_SIMPLE_THREAD_THRESHOLD k)"

definition disabled ::
  "hw_consts \<Rightarrow> (ncclAlgo \<Rightarrow> ncclTopoGraph) \<Rightarrow> int \<Rightarrow> int \<Rightarrow> tuning_env \<Rightarrow> ncclAlgo \<Rightarrow> ncclProto \<Rightarrow> bool" where
  "disabled k graphs minCompCap maxCompCap env a p \<longleftrightarrow>
     pEnable k graphs minCompCap maxCompCap (snd (readProtoEnable env)) a p = 0 \<or>
     snd (readAlgoEnable env) ! algoIdx a = 0"

subsection \<open>Example inputs\<close>

text \<open>
  Sample values for the header constants, and a communicator of \<open>nR\<close> ranks on one
  node whose tables hold one bandwidth and one latency in every cell. They are used where
  a statement is evaluated at a concrete input.
\<close>

definition example_consts :: hw_consts where
  "example_consts =
     \<lparr>WARP_SIZE = 64, NCCL_MAX_NTHREADS = 256, NCCL_LL128_MAX_NTHREADS = 256, PCI_WIDTH = 12,
      LINK_NVL = 1, LINK_PCI = 2, NCCL_LL_THREAD_THRESHOLD = 8,
      NCCL_LL128_THREAD_THRESHOLD = 8, NCCL_SIMPLE_THREAD_THRESHOLD = 64\<rparr>"

definition flat_comm :: "int \<Rightarrow> real \<Rightarrow> real \<Rightarrow> ncclComm" where
  "flat_comm nR bw lat =
     \<lparr>rank = 0, nRanks = nR, nNodes = 1, maxThreads = (\<lambda>a p. 256),
      bandwidths = (\<lambda>c a p. bw), latencies = (\<lambda>c a p. lat),
      threadThresholds = (\<lambda>a p. 64)\<rparr>"

text \<open>
  A topology graph with two channels and NVLink inside the node, and an environment with
  both thread counts unset.
\<close>

definition example_graph :: ncclTopoGraph where
  "example_graph =
     \<lparr>nChannels = 2, speedIntra = 24, speedInter = 12, typeIntra = 1, typeInter = 4,
      sameChannels = 1\<rparr>"

definition example_env :: "string option \<Rightarrow> string option \<Rightarrow> string option \<Rightarrow> tuning_env" where
  "example_env proto algo thresholds =
     \<lparr>ncclParamNthreads = - 2, ncclParamLl128Nthreads = - 2, NCCL_PROTO = proto,
      NCCL_ALGO = algo, NCCL_THREAD_THRESHOLDS = thresholds\<rparr>"

section \<open>Properties\<close>

subsection \<open>Properties of getNthreads\<close>

text \<open>
  Claim C5. \<^verbatim>\<open>getNthreads\<close> (the spec's \<open>resolve\<close>) returns the default for a value that
  is not positive; returns the value itself when it is a positive multiple of the warp
  width inside \<open>[min, max]\<close>; returns \<open>max\<close> when the value is positive and is not a
  multiple of the warp width, or exceeds \<open>max\<close>; returns \<open>min\<close> when it is a positive
  multiple below \<open>min\<close> (the range being well formed, \<open>min \<le> max\<close>). The function is
  total: it has a value for every input.
\<close>

theorem getNthreads_cases:
  "(env \<le> 0 \<longrightarrow> snd (getNthreads k name env mn mx def) = def) \<and>
   (0 < env \<and> env mod WARP_SIZE k = 0 \<and> mn \<le> env \<and> env \<le> mx \<longrightarrow>
      snd (getNthreads k name env mn mx def) = env) \<and>
   (0 < env \<and> env mod WARP_SIZE k \<noteq> 0 \<longrightarrow> snd (getNthreads k name env mn mx def) = mx) \<and>
   (0 < env \<and> mx < env \<longrightarrow> snd (getNthreads k name env mn mx def) = mx) \<and>
   (0 < env \<and> env mod WARP_SIZE k = 0 \<and> env < mn \<and> mn \<le> mx \<longrightarrow>
      snd (getNthreads k name env mn mx def) = mn)"
  by (simp add: getNthreads_def)

theorem getNthreads_cases_witness:
  "snd (getNthreads example_consts ''NCCL_NTHREADS'' (- 2) 256 1024 512) = 512 \<and>
   snd (getNthreads example_consts ''NCCL_NTHREADS'' 512 256 1024 1024) = 512 \<and>
   snd (getNthreads example_consts ''NCCL_NTHREADS'' 300 256 1024 512) = 1024 \<and>
   snd (getNthreads example_consts ''NCCL_NTHREADS'' 2048 256 1024 512) = 1024 \<and>
   snd (getNthreads example_consts ''NCCL_NTHREADS'' 128 256 1024 512) = 256"
  using getNthreads_cases [of "- 2" example_consts "''NCCL_NTHREADS''" 256 1024 512]
    getNthreads_cases [of 512 example_consts "''NCCL_NTHREADS''" 256 1024 1024]
    getNthreads_cases [of 300 example_consts "''NCCL_NTHREADS''" 256 1024 512]
    getNthreads_cases [of 2048 example_consts "''NCCL_NTHREADS''" 256 1024 512]
    getNthreads_cases [of 128 example_consts "''NCCL_NTHREADS''" 256 1024 512]
  by (simp add: example_consts_def)

subsection \<open>Properties of parseList\<close>

lemma fold_upd_nth:
  "i < length l \<Longrightarrow>
   fold (\<lambda>i l. if P i then l[i := v] else l) js l ! i = (if i \<in> set js \<and> P i then v else l ! i)"
proof (induction js arbitrary: l)
  case Nil
  then show ?case by simp
next
  case (Cons a js)
  show ?case
  proof (cases "a = i")
    case True
    with Cons show ?thesis by simp
  next
    case False
    with Cons show ?thesis by simp
  qed
qed

lemma fold_upd_length [simp]: "length (fold (\<lambda>i l. if P i then l[i := v] else l) js l) = length l"
  by (induction js arbitrary: l) auto

lemma setMatching_length [simp]: "length (setMatching st tok elems list) = length list"
  by (simp add: setMatching_def)

lemma setMatching_nth:
  "i < length elems \<Longrightarrow> i < length list \<Longrightarrow>
   setMatching st tok elems list ! i = (if strcasecmp_eq tok (elems ! i) then st else list ! i)"
  unfolding setMatching_def by (simp add: fold_upd_nth)

lemma comma_fields_ne [simp]: "comma_fields s \<noteq> []"
  by (induction s) (auto split: list.splits)

lemma fields_unfold:
  "comma_fields cs = takeWhile (\<lambda>c. c \<noteq> CHR '','') cs #
     (if dropWhile (\<lambda>c. c \<noteq> CHR '','') cs = [] then []
      else comma_fields (drop 1 (dropWhile (\<lambda>c. c \<noteq> CHR '','') cs)))"
  by (induction cs) (auto split: list.splits)

lemma strtok_r_comma: "strtok_r (CHR '','' # cs) = strtok_r cs"
  by (simp add: strtok_r_def)

lemma strtok_r_char:
  "c \<noteq> CHR '','' \<Longrightarrow>
   strtok_r (c # cs) = Some (c # takeWhile (\<lambda>c. c \<noteq> CHR '','') cs,
                             drop 1 (dropWhile (\<lambda>c. c \<noteq> CHR '','') cs))"
  by (simp add: strtok_r_def)

lemma tokens_comma: "tokens (CHR '','' # cs) = tokens cs"
  by (simp add: tokens_def)

lemma tokens_char:
  "c \<noteq> CHR '','' \<Longrightarrow>
   tokens (c # cs) = (c # takeWhile (\<lambda>c. c \<noteq> CHR '','') cs) #
                     tokens (drop 1 (dropWhile (\<lambda>c. c \<noteq> CHR '','') cs))"
proof -
  assume c: "c \<noteq> CHR '',''"
  obtain t ts where f: "comma_fields cs = t # ts" by (cases "comma_fields cs") auto
  with fields_unfold [of cs]
  have t: "t = takeWhile (\<lambda>c. c \<noteq> CHR '','') cs"
    and ts: "ts = (if dropWhile (\<lambda>c. c \<noteq> CHR '','') cs = [] then []
      else comma_fields (drop 1 (dropWhile (\<lambda>c. c \<noteq> CHR '','') cs)))" by auto
  have "tokens (c # cs) = (c # t) # filter (\<lambda>t. t \<noteq> []) ts"
    using c f by (simp add: tokens_def)
  also have "filter (\<lambda>t. t \<noteq> []) ts = tokens (drop 1 (dropWhile (\<lambda>c. c \<noteq> CHR '','') cs))"
  proof (cases "dropWhile (\<lambda>c. c \<noteq> CHR '','') cs = []")
    case True
    then show ?thesis unfolding ts by (simp add: tokens_def del: dropWhile_eq_Nil_conv)
  next
    case False
    then show ?thesis unfolding ts by (simp add: tokens_def del: dropWhile_eq_Nil_conv)
  qed
  finally show ?thesis unfolding t .
qed

lemma strtok_r_tokens:
  "(case strtok_r s of None \<Rightarrow> tokens s = [] | Some (tok, rest) \<Rightarrow> tokens s = tok # tokens rest)"
proof (induction s)
  case Nil
  show ?case by (simp add: strtok_r_def tokens_def)
next
  case (Cons c cs)
  show ?case
  proof (cases "c = CHR '',''")
    case True
    from Cons show ?thesis unfolding True strtok_r_comma tokens_comma .
  next
    case False
    then show ?thesis by (simp add: strtok_r_char tokens_char)
  qed
qed

lemma parseTokens_fold:
  "parseTokens st elems s list = fold (\<lambda>tok l. setMatching st tok elems l) (tokens s) list"
proof (induction st elems s list rule: parseTokens.induct)
  case (1 st elems s list)
  show ?case
  proof (cases "strtok_r s")
    case None
    with strtok_r_tokens [of s] show ?thesis
      by (simp add: parseTokens.simps [of st elems s list])
  next
    case (Some p)
    obtain tok rest where p: "p = (tok, rest)" by (cases p)
    with Some strtok_r_tokens [of s] have t: "tokens s = tok # tokens rest" by simp
    from "1.IH" [OF Some p [symmetric]] Some p t show ?thesis
      by (simp add: parseTokens.simps [of st elems s list])
  qed
qed

lemma fold_setMatching_length [simp]:
  "length (fold (\<lambda>tok l. setMatching st tok elems l) toks list) = length list"
  by (induction toks arbitrary: list) auto

lemma fold_setMatching_nth:
  "i < length elems \<Longrightarrow> i < length list \<Longrightarrow>
   fold (\<lambda>tok l. setMatching st tok elems l) toks list ! i =
     (if \<exists>tok \<in> set toks. strcasecmp_eq tok (elems ! i) then st else list ! i)"
  by (induction toks arbitrary: list) (auto simp: setMatching_nth)

lemma fold_init_nth:
  "i < length l \<Longrightarrow> fold (\<lambda>i l. l[i := v]) js l ! i = (if i \<in> set js then v else l ! i)"
proof (induction js arbitrary: l)
  case Nil
  then show ?case by simp
next
  case (Cons a js)
  show ?case
  proof (cases "a = i")
    case True
    with Cons show ?thesis by simp
  next
    case False
    with Cons show ?thesis by simp
  qed
qed

lemma fold_init_length [simp]: "length (fold (\<lambda>i l. l[i := v]) js l) = length l"
  by (induction js arbitrary: l) auto

lemma fields_append_comma: "comma_fields (a @ CHR '','' # b) = comma_fields a @ comma_fields b"
  by (induction a) (auto split: list.splits)

lemma tokens_append_comma: "tokens (a @ CHR '','' # b) = tokens a @ tokens b"
  by (simp add: tokens_def fields_append_comma)


lemma parseList_eq:
  "parseList str elems list =
     (ncclSuccess,
      fold (\<lambda>tok l. setMatching (if spec_negated str then 0 else 1) tok elems l) (spec_listed str)
        (fold (\<lambda>i l. l[i := (if spec_negated str then 1 else 0)]) [0..<length elems] list))"
  by (cases str) (simp_all add: parseList_def spec_negated_def spec_listed_def parseTokens_fold)

lemma parseList_length: "length (snd (parseList str elems list)) = length list"
  by (simp add: parseList_eq)

lemma parseList_nth:
  assumes "length list = length elems" and "i < length elems"
  shows "snd (parseList str elems list) ! i =
     (if \<exists>tok \<in> set (spec_listed str). strcasecmp_eq tok (elems ! i)
      then (if spec_negated str then 0 else 1)
      else (if spec_negated str then 1 else 0))"
  using assms by (simp add: parseList_eq fold_setMatching_nth fold_init_nth)

lemma parseList_cong:
  assumes len: "length list = length elems"
    and neg: "spec_negated s1 = spec_negated s2"
    and toks: "\<And>e. e \<in> set elems \<Longrightarrow>
       (\<exists>tok \<in> set (spec_listed s1). strcasecmp_eq tok e) = (\<exists>tok \<in> set (spec_listed s2). strcasecmp_eq tok e)"
  shows "parseList s1 elems list = parseList s2 elems list"
proof -
  have "snd (parseList s1 elems list) = snd (parseList s2 elems list)"
  proof (rule nth_equalityI)
    show "length (snd (parseList s1 elems list)) = length (snd (parseList s2 elems list))"
      by (simp add: parseList_length)
  next
    fix i assume "i < length (snd (parseList s1 elems list))"
    then have i: "i < length elems" using len by (simp add: parseList_length)
    then have "elems ! i \<in> set elems" by simp
    from toks [OF this] show "snd (parseList s1 elems list) ! i = snd (parseList s2 elems list) ! i"
      using len i neg by (simp add: parseList_nth)
  qed
  moreover have "fst (parseList s1 elems list) = fst (parseList s2 elems list)"
    by (simp add: parseList_eq)
  ultimately show ?thesis by (simp add: prod_eq_iff)
qed

lemma spec_negated_append_comma: "spec_negated (str @ CHR '','' # u) = spec_negated str"
  by (cases str) (simp_all add: spec_negated_def)

lemma spec_listed_append_comma: "spec_listed (str @ CHR '','' # u) = spec_listed str @ tokens u"
proof (cases str)
  case Nil
  then show ?thesis by (simp add: spec_listed_def spec_negated_def tokens_comma tokens_def)
next
  case (Cons c cs)
  show ?thesis
  proof (cases "c = CHR ''^''")
    case True
    with Cons show ?thesis by (simp add: spec_listed_def spec_negated_def tokens_append_comma)
  next
    case False
    with Cons tokens_append_comma [of "c # cs" u] show ?thesis
      by (simp add: spec_listed_def spec_negated_def)
  qed
qed

text \<open>
  Claim C6. For a vocabulary \<open>elems\<close> and a result array of the same length,
  \<^verbatim>\<open>parseList\<close> (the spec's \<open>parse\<close>) succeeds and decides every entry: when the
  text starts with \<open>^\<close> the entry is 0 if a listed name matches it and 1 otherwise; when it
  does not, the entry is 1 if a listed name matches and 0 otherwise. The listed names are
  the non-empty comma-separated tokens behind the marker, compared without regard to
  case. Appending tokens that match no vocabulary name, or tokens already listed, changes
  nothing. The spec's two examples and a mixed-case one are evaluated.
\<close>

theorem parseList_membership:
  "length list = length elems \<longrightarrow>
   fst (parseList str elems list) = ncclSuccess \<and>
   length (snd (parseList str elems list)) = length elems \<and>
   (\<forall>i < length elems.
      snd (parseList str elems list) ! i =
        (if spec_negated str
         then (if \<exists>tok \<in> set (spec_listed str). strcasecmp_eq tok (elems ! i) then 0 else 1)
         else (if \<exists>tok \<in> set (spec_listed str). strcasecmp_eq tok (elems ! i) then 1 else 0))) \<and>
   ((\<forall>tok \<in> set (tokens u). \<forall>e \<in> set elems. \<not> strcasecmp_eq tok e) \<longrightarrow>
      parseList (str @ CHR '','' # u) elems list = parseList str elems list) \<and>
   (set (tokens u) \<subseteq> set (spec_listed str) \<longrightarrow>
      parseList (str @ CHR '','' # u) elems list = parseList str elems list) \<and>
   snd (parseList ''^a,b'' [''a'', ''b'', ''c''] [x, y, z]) = [0, 0, 1] \<and>
   snd (parseList ''a,b'' [''a'', ''b'', ''c''] [x, y, z]) = [1, 1, 0] \<and>
   snd (parseList ''ll128,SIMPLE'' ncclProtoStr [1, 2, 1]) = [0, 1, 1]"
proof (intro impI conjI allI)
  assume len: "length list = length elems"
  show "fst (parseList str elems list) = ncclSuccess" by (simp add: parseList_eq)
  show "length (snd (parseList str elems list)) = length elems"
    using len by (simp add: parseList_length)
  show "snd (parseList str elems list) ! i =
        (if spec_negated str
         then (if \<exists>tok \<in> set (spec_listed str). strcasecmp_eq tok (elems ! i) then 0 else 1)
         else (if \<exists>tok \<in> set (spec_listed str). strcasecmp_eq tok (elems ! i) then 1 else 0))"
    if "i < length elems" for i
    using len that by (simp add: parseList_nth)
  show "parseList (str @ CHR '','' # u) elems list = parseList str elems list"
    if "\<forall>tok \<in> set (tokens u). \<forall>e \<in> set elems. \<not> strcasecmp_eq tok e"
    using len that
    by (intro parseList_cong) (auto simp: spec_negated_append_comma spec_listed_append_comma)
  show "parseList (str @ CHR '','' # u) elems list = parseList str elems list"
    if "set (tokens u) \<subseteq> set (spec_listed str)"
    using len that
    by (intro parseList_cong) (auto simp: spec_negated_append_comma spec_listed_append_comma)
next
  show "snd (parseList ''^a,b'' [''a'', ''b'', ''c''] [x, y, z]) = [0, 0, 1]"
    by (simp add: parseList_eq spec_negated_def spec_listed_def tokens_def setMatching_def
        strcasecmp_eq_def tolower_c_def)
  show "snd (parseList ''a,b'' [''a'', ''b'', ''c''] [x, y, z]) = [1, 1, 0]"
    by (simp add: parseList_eq spec_negated_def spec_listed_def tokens_def setMatching_def
        strcasecmp_eq_def tolower_c_def)
  show "snd (parseList ''ll128,SIMPLE'' ncclProtoStr [1, 2, 1]) = [0, 1, 1]"
    by (simp add: parseList_eq spec_negated_def spec_listed_def tokens_def setMatching_def
        strcasecmp_eq_def tolower_c_def ncclProtoStr_def)
qed

theorem parseList_membership_witness:
  "length [1, 2, 1 :: int] = length ncclProtoStr \<and>
   fst (parseList ''^LL128'' ncclProtoStr [1, 2, 1]) = ncclSuccess \<and>
   snd (parseList ''^LL128'' ncclProtoStr [1, 2, 1]) ! 0 = 1 \<and>
   snd (parseList ''^LL128'' ncclProtoStr [1, 2, 1]) ! 1 = 0 \<and>
   snd (parseList ''^LL128'' ncclProtoStr [1, 2, 1]) ! 2 = 1 \<and>
   parseList (''^LL128'' @ CHR '','' # ''Fast,,x'') ncclProtoStr [1, 2, 1] =
     parseList ''^LL128'' ncclProtoStr [1, 2, 1] \<and>
   parseList (''^LL128'' @ CHR '','' # ''LL128,LL128'') ncclProtoStr [1, 2, 1] =
     parseList ''^LL128'' ncclProtoStr [1, 2, 1]"
proof -
  have len: "length [1, 2, 1 :: int] = length ncclProtoStr" by (simp add: ncclProtoStr_def)
  have neg: "spec_negated ''^LL128''" by (simp add: spec_negated_def)
  have lst: "spec_listed ''^LL128'' = [''LL128'']" by (simp add: spec_listed_def spec_negated_def tokens_def)
  have m: "\<not> strcasecmp_eq ''LL128'' ''LL''" "strcasecmp_eq ''LL128'' ''LL128''"
    "\<not> strcasecmp_eq ''LL128'' ''Simple''"
    by (simp_all add: strcasecmp_eq_def tolower_c_def)
  have unk: "\<forall>tok \<in> set (tokens ''Fast,,x''). \<forall>e \<in> set ncclProtoStr. \<not> strcasecmp_eq tok e"
    by (simp add: tokens_def ncclProtoStr_def strcasecmp_eq_def tolower_c_def)
  have dup: "set (tokens ''LL128,LL128'') \<subseteq> set (spec_listed ''^LL128'')"
    by (simp add: lst) (simp add: tokens_def)
  note t = parseList_membership [of "[1, 2, 1]" ncclProtoStr "''^LL128''", THEN mp, OF len]
  have e: "ncclProtoStr ! 0 = ''LL''" "ncclProtoStr ! Suc 0 = ''LL128''" "ncclProtoStr ! 2 = ''Simple''"
    "length ncclProtoStr = 3"
    by (simp_all add: ncclProtoStr_def)
  from t have a: "fst (parseList ''^LL128'' ncclProtoStr [1, 2, 1]) = ncclSuccess"
    by (rule conjunct1)
  from t have nth: "\<forall>i < length ncclProtoStr.
      snd (parseList ''^LL128'' ncclProtoStr [1, 2, 1]) ! i =
        (if spec_negated ''^LL128''
         then (if \<exists>tok \<in> set (spec_listed ''^LL128''). strcasecmp_eq tok (ncclProtoStr ! i) then 0 else 1)
         else (if \<exists>tok \<in> set (spec_listed ''^LL128''). strcasecmp_eq tok (ncclProtoStr ! i) then 1 else 0))"
    by (rule conjunct2 [THEN conjunct2, THEN conjunct1])
  from nth [rule_format, of 0] nth [rule_format, of 1] nth [rule_format, of 2]
  have b: "snd (parseList ''^LL128'' ncclProtoStr [1, 2, 1]) ! 0 = 1"
    "snd (parseList ''^LL128'' ncclProtoStr [1, 2, 1]) ! 1 = 0"
    "snd (parseList ''^LL128'' ncclProtoStr [1, 2, 1]) ! 2 = 1"
    by (simp_all add: e neg lst m)
  from t [of "''Fast,,x''", THEN conjunct2, THEN conjunct2, THEN conjunct2, THEN conjunct1] unk
  have c: "parseList (''^LL128'' @ CHR '','' # ''Fast,,x'') ncclProtoStr [1, 2, 1] =
     parseList ''^LL128'' ncclProtoStr [1, 2, 1]" by (rule mp)
  from t [of "''LL128,LL128''", THEN conjunct2, THEN conjunct2, THEN conjunct2, THEN conjunct2,
      THEN conjunct1] dup
  have d: "parseList (''^LL128'' @ CHR '','' # ''LL128,LL128'') ncclProtoStr [1, 2, 1] =
     parseList ''^LL128'' ncclProtoStr [1, 2, 1]" by (rule mp)
  from len a b c d show ?thesis by (intro conjI)
qed

subsection \<open>Properties of ncclTopoGetAlgoTime\<close>

lemma table_row_pos:
  assumes "\<forall>row \<in> set tbl. length row = 22 \<and> (\<forall>x \<in> set row. 0 < (x::real))"
    and "i < length tbl" and "b < 22"
  shows "0 < tbl ! i ! b"
proof -
  from assms(1,2) have "length (tbl ! i) = 22" and "\<forall>x \<in> set (tbl ! i). 0 < x"
    by (auto dest: nth_mem)
  with assms(3) show ?thesis by (metis nth_mem)
qed

lemma treeCorrectionFactor_pos: "b < 22 \<Longrightarrow> 0 < treeCorrectionFactor ! protoIdx p ! b"
proof (rule table_row_pos)
  show "\<forall>row \<in> set treeCorrectionFactor. length row = 22 \<and> (\<forall>x \<in> set row. 0 < x)"
    by (simp add: treeCorrectionFactor_def)
  show "protoIdx p < length treeCorrectionFactor"
    by (cases p) (simp_all add: treeCorrectionFactor_def)
qed

lemma ringCorrectionFactor_pos: "b < 22 \<Longrightarrow> 0 < ringCorrectionFactor ! protoIdx p ! b"
proof (rule table_row_pos)
  show "\<forall>row \<in> set ringCorrectionFactor. length row = 22 \<and> (\<forall>x \<in> set row. 0 < x)"
    by (simp add: ringCorrectionFactor_def)
  show "protoIdx p < length ringCorrectionFactor"
    by (cases p) (simp_all add: ringCorrectionFactor_def)
qed

lemma spec_correction_pos: "0 < spec_correction a p b"
  by (cases a) (simp_all add: spec_correction_def treeCorrectionFactor_pos ringCorrectionFactor_pos)

lemma correctedBw_eq: "correctedBw bw nb a p = bw * spec_correction a p (spec_sizeBucket nb)"
  by (cases a) (simp_all add: correctedBw_def spec_correction_def spec_sizeBucket_def Let_def)

lemma log2i_mono: "m \<le> n \<Longrightarrow> log2i m \<le> log2i n"
proof (induction n arbitrary: m rule: log2i.induct)
  case (1 n)
  show ?case
  proof (cases "m < 2")
    case True
    then show ?thesis by (simp add: log2i.simps [of m])
  next
    case False
    with "1.prems" have n: "\<not> n < 2" by simp
    have "m div 2 \<le> n div 2" using "1.prems" by (rule div_le_mono)
    from "1.IH" [OF n this] False n show ?thesis
      by (simp add: log2i.simps [of m] log2i.simps [of n])
  qed
qed

lemma log2i_bounds: "0 < n \<Longrightarrow> 2 ^ log2i n \<le> n \<and> n < 2 ^ Suc (log2i n)"
proof (induction n rule: log2i.induct)
  case (1 n)
  show ?case
  proof (cases "n < 2")
    case True
    with "1.prems" show ?thesis by (simp add: log2i.simps [of n])
  next
    case False
    then have "0 < n div 2" by simp
    from "1.IH" [OF False this] False show ?thesis
      by (simp add: log2i.simps [of n]) linarith
  qed
qed

lemma log2i_floor_log: "0 < n \<Longrightarrow> int (log2i n) = \<lfloor>log 2 (real n)\<rfloor>"
  using floor_log_nat_eq_powr_iff [of 2 n "log2i n"] log2i_bounds [of n] by simp

lemma spec_sizeBucket_mono: "b1 \<le> b2 \<Longrightarrow> spec_sizeBucket b1 \<le> spec_sizeBucket b2"
  unfolding spec_sizeBucket_def by (intro log2i_mono div_le_mono)

lemma spec_correction_beyond: "22 \<le> b \<Longrightarrow> spec_correction a p b = 1"
  by (simp add: spec_correction_def)

lemma algoTime_eq:
  "bandwidths (comm info) (coll info) a p \<noteq> 0 \<Longrightarrow>
   ncclTopoGetAlgoTime info a p =
     (ncclSuccess,
      latencies (comm info) (coll info) a p +
        real (nBytes info) /
          (1000 * (bandwidths (comm info) (coll info) a p *
                     spec_correction a p (spec_sizeBucket (nBytes info)))))"
  by (simp add: ncclTopoGetAlgoTime_def correctedBw_eq Let_def)

text \<open>Facts about binary32 rounding and the divisor.\<close>

lemma rne_zero_iff: "rne x = 0 \<longleftrightarrow> \<bar>x\<bar> \<le> 1 / 2"
proof
  assume "rne x = 0"
  then show "\<bar>x\<bar> \<le> 1 / 2"
    unfolding rne_def Let_def by (auto split: if_splits) linarith+
next
  assume a: "\<bar>x\<bar> \<le> 1 / 2"
  then have "\<lfloor>x\<rfloor> = 0 \<or> \<lfloor>x\<rfloor> = - 1" by linarith
  then show "rne x = 0"
  proof
    assume f: "\<lfloor>x\<rfloor> = 0"
    with a show ?thesis unfolding rne_def Let_def by auto
  next
    assume f: "\<lfloor>x\<rfloor> = - 1"
    then have "x < 0" by linarith
    with a f show ?thesis unfolding rne_def Let_def by auto
  qed
qed

lemma rne_close: "\<bar>of_int (rne x) - x\<bar> \<le> 1 / 2"
proof -
  have "of_int \<lfloor>x\<rfloor> \<le> x" "x < of_int \<lfloor>x\<rfloor> + 1" by linarith+
  then show ?thesis unfolding rne_def Let_def by auto
qed

lemma f32_exp_from_range:
  "- 149 \<le> f32_exp_from e x \<and>
   (f32_exp_from e x = - 149 \<or> 2 powi (f32_exp_from e x + 23) \<le> \<bar>x\<bar>)"
proof (induction e x rule: f32_exp_from.induct)
  case (1 e x)
  then show ?case by (simp add: f32_exp_from.simps [of e x])
qed

lemma f32_exp_from_small:
  "\<bar>x\<bar> < 2 powi (- 126) \<Longrightarrow> f32_exp_from e x = - 149"
proof (induction e x rule: f32_exp_from.induct)
  case (1 e x)
  show ?case
  proof (cases "e \<le> - 149")
    case True
    then show ?thesis by (simp add: f32_exp_from.simps [of e x])
  next
    case False
    then have "(2::real) powi (- 126) \<le> 2 powi (e + 23)"
      by (intro power_int_increasing) auto
    with "1.prems" have n: "\<not> 2 powi (e + 23) \<le> \<bar>x\<bar>" by linarith
    from "1.IH" [OF False n "1.prems"] False n show ?thesis
      by (simp add: f32_exp_from.simps [of e x])
  qed
qed

lemma f32_exponent_range:
  "- 149 \<le> f32_exponent x \<and> (f32_exponent x = - 149 \<or> 2 powi (f32_exponent x + 23) \<le> \<bar>x\<bar>)"
  unfolding f32_exponent_def by (rule f32_exp_from_range)

lemma f32_exponent_small: "\<bar>x\<bar> < 2 powi (- 126) \<Longrightarrow> f32_exponent x = - 149"
  unfolding f32_exponent_def by (rule f32_exp_from_small)

lemma f32_exponent_le_unit: "\<bar>x\<bar> \<le> 1 \<Longrightarrow> f32_exponent x \<le> - 23"
proof (rule ccontr)
  assume a: "\<bar>x\<bar> \<le> 1" and n: "\<not> f32_exponent x \<le> - 23"
  then have "f32_exponent x \<noteq> - 149" by simp
  with f32_exponent_range [of x] have p: "2 powi (f32_exponent x + 23) \<le> \<bar>x\<bar>" by blast
  from n have "(2::real) powi 1 \<le> 2 powi (f32_exponent x + 23)"
    by (intro power_int_increasing) auto
  with p a show False by simp
qed

text \<open>A value above half the smallest subnormal does not round to zero.\<close>

lemma round32_fin_lower:
  assumes "2 powi (- 150) < \<bar>x\<bar>"
  shows "2 powi (- 149) \<le> \<bar>round32_fin x\<bar>"
proof -
  let ?e = "f32_exponent x"
  have e: "- 149 \<le> ?e" using f32_exponent_range [of x] by blast
  have pos: "(0::real) < 2 powi ?e" by simp
  have half: "1 / 2 < \<bar>x / 2 powi ?e\<bar>"
  proof (cases "?e = - 149")
    case True
    have "\<bar>x / 2 powi (- 149)\<bar> = \<bar>x\<bar> * 2 powi 149" by (simp add: power_int_minus field_simps)
    also have "\<dots> > 2 powi (- 150) * 2 powi 149" using assms by simp
    finally show ?thesis using True by (simp add: power_int_minus)
  next
    case False
    with f32_exponent_range [of x] have "2 powi (?e + 23) \<le> \<bar>x\<bar>" by blast
    then have "2 powi ?e * 2 ^ 23 \<le> \<bar>x\<bar>" by (simp add: power_int_add)
    then have "2 ^ 23 \<le> \<bar>x\<bar> / 2 powi ?e" using pos by (simp add: field_simps)
    moreover have "\<bar>x / 2 powi ?e\<bar> = \<bar>x\<bar> / 2 powi ?e" by (simp add: abs_divide)
    moreover have "(1::real) / 2 < 2 ^ 23" by simp
    ultimately show ?thesis by linarith
  qed
  then have "rne (x / 2 powi ?e) \<noteq> 0" by (simp add: rne_zero_iff)
  then have "1 \<le> \<bar>rne (x / 2 powi ?e)\<bar>" by linarith
  then have "(1::real) \<le> \<bar>of_int (rne (x / 2 powi ?e))\<bar>" by linarith
  then have "(2::real) powi ?e \<le> \<bar>real_of_int (rne (x / 2 powi ?e))\<bar> * 2 powi ?e"
    using pos by simp
  moreover have "(2::real) powi (- 149) \<le> 2 powi ?e" using e by (intro power_int_increasing) auto
  moreover have "\<bar>round32_fin x\<bar> = \<bar>real_of_int (rne (x / 2 powi ?e))\<bar> * 2 powi ?e"
    by (simp add: round32_fin_def abs_mult)
  ultimately show ?thesis by linarith
qed

text \<open>A value of at most half the smallest subnormal rounds to zero.\<close>

lemma round32_fin_underflow:
  assumes "\<bar>x\<bar> \<le> 2 powi (- 150)"
  shows "round32_fin x = 0"
proof -
  have "(2::real) powi (- 150) < 2 powi (- 126)" by (simp add: power_int_minus)
  with assms have e: "f32_exponent x = - 149" by (intro f32_exponent_small) linarith
  have "\<bar>x / 2 powi (- 149)\<bar> = \<bar>x\<bar> * 2 powi 149" by (simp add: power_int_minus field_simps)
  also have "\<dots> \<le> 2 powi (- 150) * 2 powi 149" using assms by simp
  finally have "\<bar>x / 2 powi (- 149)\<bar> \<le> 1 / 2" by (simp add: power_int_minus)
  then have "rne (x / 2 powi (- 149)) = 0" by (simp add: rne_zero_iff)
  then show ?thesis by (simp add: round32_fin_def e)
qed

lemma round32_fin_close:
  assumes "\<bar>x\<bar> \<le> 1"
  shows "\<bar>round32_fin x - x\<bar> \<le> 2 powi (- 24)"
proof -
  let ?e = "f32_exponent x"
  have pos: "(0::real) < 2 powi ?e" by simp
  have "round32_fin x - x = (of_int (rne (x / 2 powi ?e)) - x / 2 powi ?e) * 2 powi ?e"
    using pos by (simp add: round32_fin_def field_simps)
  then have "\<bar>round32_fin x - x\<bar> = \<bar>of_int (rne (x / 2 powi ?e)) - x / 2 powi ?e\<bar> * 2 powi ?e"
    by (simp add: abs_mult)
  also have "\<dots> \<le> 1 / 2 * 2 powi ?e"
    using rne_close [of "x / 2 powi ?e"] pos by (intro mult_right_mono) auto
  also have "\<dots> \<le> 1 / 2 * 2 powi (- 23)"
    using f32_exponent_le_unit [OF assms] by (intro mult_left_mono power_int_increasing) auto
  also have "\<dots> = 2 powi (- 24)" by (simp add: power_int_minus)
  finally show ?thesis .
qed

lemma f32_exp_from_binade:
  "- 149 < e0 \<Longrightarrow> e0 \<le> e \<Longrightarrow> 2 powi (e0 + 23) \<le> \<bar>x\<bar> \<Longrightarrow> \<bar>x\<bar> < 2 powi (e0 + 24) \<Longrightarrow>
   f32_exp_from e x = e0"
proof (induction e x rule: f32_exp_from.induct)
  case (1 e x)
  show ?case
  proof (cases "e = e0")
    case True
    with "1.prems" show ?thesis by (simp add: f32_exp_from.simps [of e0 x])
  next
    case False
    with "1.prems" have lt: "e0 < e" by simp
    then have "(2::real) powi (e0 + 24) \<le> 2 powi (e + 23)"
      by (intro power_int_increasing) auto
    with "1.prems" have n: "\<not> 2 powi (e + 23) \<le> \<bar>x\<bar>" by linarith
    from lt "1.prems" have a: "\<not> e \<le> - 149" by simp
    from lt have "e0 \<le> e - 1" by simp
    from "1.IH" [OF a n "1.prems"(1) this "1.prems"(3,4)] a n show ?thesis
      by (simp add: f32_exp_from.simps [of e x])
  qed
qed

lemma round32_nonzero:
  assumes "2 powi (- 150) < \<bar>x\<bar>"
  shows "round32 x = Infinite \<or> (\<exists>y. round32 x = Finite y \<and> 2 powi (- 149) \<le> \<bar>y\<bar>)"
  using round32_fin_lower [OF assms] by (simp add: round32_def)

lemma round32_underflow: "\<bar>x\<bar> \<le> 2 powi (- 150) \<Longrightarrow> round32 x = Finite 0"
  by (simp add: round32_def round32_fin_underflow)

lemma round32_zero_iff: "round32 x = Finite 0 \<longleftrightarrow> \<bar>x\<bar> \<le> 2 powi (- 150)"
proof
  assume a: "round32 x = Finite 0"
  show "\<bar>x\<bar> \<le> 2 powi (- 150)"
  proof (rule ccontr)
    assume "\<not> \<bar>x\<bar> \<le> 2 powi (- 150)"
    then have "2 powi (- 150) < \<bar>x\<bar>" by simp
    from round32_nonzero [OF this] a show False by auto
  qed
qed (rule round32_underflow)

lemma is_f32_nonzero: "is_f32 x \<Longrightarrow> x \<noteq> 0 \<Longrightarrow> 2 powi (- 149) \<le> \<bar>x\<bar>"
proof -
  assume f: "is_f32 x" and n: "x \<noteq> 0"
  then have "round32 x \<noteq> Finite 0" by (simp add: is_f32_def)
  then have "2 powi (- 150) < \<bar>x\<bar>" by (simp add: round32_zero_iff)
  from round32_nonzero [OF this] f show ?thesis by (auto simp: is_f32_def)
qed

text \<open>Multiplying a rounded value by 1000 gives zero only if the value is zero.\<close>

lemma times_1000_zero_iff:
  "fmul32 (Finite 1000) (round32 x) = Finite 0 \<longleftrightarrow> round32 x = Finite 0"
proof (cases "\<bar>x\<bar> \<le> 2 powi (- 150)")
  case True
  then have "round32 x = Finite 0" by (rule round32_underflow)
  then show ?thesis by (simp add: round32_underflow)
next
  case False
  then have "2 powi (- 150) < \<bar>x\<bar>" by simp
  from round32_nonzero [OF this] show ?thesis
  proof
    assume "round32 x = Infinite"
    then show ?thesis by simp
  next
    assume "\<exists>y. round32 x = Finite y \<and> 2 powi (- 149) \<le> \<bar>y\<bar>"
    then obtain y where y: "round32 x = Finite y" "2 powi (- 149) \<le> \<bar>y\<bar>" by blast
    have "(2::real) powi (- 150) < 2 powi (- 149)" by (simp add: power_int_minus)
    with y(2) have "2 powi (- 150) < \<bar>1000 * y\<bar>" by (simp add: abs_mult)
    then have "round32 (1000 * y) \<noteq> Finite 0" by (simp add: round32_zero_iff)
    moreover from y have "y \<noteq> 0" by auto
    ultimately show ?thesis using y by simp
  qed
qed

lemma table_row_bounds:
  assumes "\<forall>row \<in> set tbl. length row = 22 \<and> (\<forall>x \<in> set row. 1 / 25 \<le> x \<and> x \<le> (1::real))"
    and "i < length tbl" and "b < 22"
  shows "1 / 25 \<le> tbl ! i ! b \<and> tbl ! i ! b \<le> 1"
proof -
  from assms(1,2) have "length (tbl ! i) = 22" and "\<forall>x \<in> set (tbl ! i). 1 / 25 \<le> x \<and> x \<le> 1"
    by (auto dest: nth_mem)
  with assms(3) show ?thesis by (metis nth_mem)
qed

lemma treeCorrectionFactor_bounds:
  "b < 22 \<Longrightarrow> 1 / 25 \<le> treeCorrectionFactor ! protoIdx p ! b \<and> treeCorrectionFactor ! protoIdx p ! b \<le> 1"
proof (rule table_row_bounds)
  show "\<forall>row \<in> set treeCorrectionFactor. length row = 22 \<and> (\<forall>x \<in> set row. 1 / 25 \<le> x \<and> x \<le> 1)"
    by (simp add: treeCorrectionFactor_def)
  show "protoIdx p < length treeCorrectionFactor"
    by (cases p) (simp_all add: treeCorrectionFactor_def)
qed

lemma ringCorrectionFactor_bounds:
  "b < 22 \<Longrightarrow> 1 / 25 \<le> ringCorrectionFactor ! protoIdx p ! b \<and> ringCorrectionFactor ! protoIdx p ! b \<le> 1"
proof (rule table_row_bounds)
  show "\<forall>row \<in> set ringCorrectionFactor. length row = 22 \<and> (\<forall>x \<in> set row. 1 / 25 \<le> x \<and> x \<le> 1)"
    by (simp add: ringCorrectionFactor_def)
  show "protoIdx p < length ringCorrectionFactor"
    by (cases p) (simp_all add: ringCorrectionFactor_def)
qed

text \<open>A table entry, stored as binary32, is finite and lies between \<open>1 / 32\<close> and 2.\<close>

lemma round32_entry:
  assumes "1 / 25 \<le> x" and "x \<le> 1"
  shows "round32 x = Finite (round32_fin x) \<and> 2 powi (- 5) \<le> round32_fin x \<and> round32_fin x \<le> 2"
proof -
  from assms have "\<bar>x\<bar> \<le> 1" by simp
  from round32_fin_close [OF this] have c: "\<bar>round32_fin x - x\<bar> \<le> 2 powi (- 24)" .
  have p: "(2::real) powi (- 24) \<le> 1 / 1000" "(2::real) powi (- 5) = 1 / 32" "(2::real) powi 128 > 2"
    by (simp_all add: power_int_minus)
  from c p assms have lo: "2 powi (- 5) \<le> round32_fin x" and hi: "round32_fin x \<le> 2" by linarith+
  from lo hi p have "\<not> 2 powi 128 \<le> \<bar>round32_fin x\<bar>" by linarith
  with lo hi show ?thesis by (simp add: round32_def)
qed

lemma spec_correction32_bounds: "2 powi (- 5) \<le> spec_correction32 a p b \<and> spec_correction32 a p b \<le> 2"
proof -
  have one: "(2::real) powi (- 5) \<le> 1" by (simp add: power_int_minus)
  show ?thesis
  proof (cases "b < 22")
    case True
    then show ?thesis
      using round32_entry [OF treeCorrectionFactor_bounds [OF True, of p, THEN conjunct1]
          treeCorrectionFactor_bounds [OF True, of p, THEN conjunct2]]
        round32_entry [OF ringCorrectionFactor_bounds [OF True, of p, THEN conjunct1]
          ringCorrectionFactor_bounds [OF True, of p, THEN conjunct2]] one
      by (cases a) (simp_all add: spec_correction32_def)
  next
    case False
    then show ?thesis using one by (simp add: spec_correction32_def)
  qed
qed

lemma correctedBw32_eq:
  "correctedBw32 bw nb a p =
     (if a \<noteq> NCCL_ALGO_COLLNET \<and> spec_sizeBucket nb < 22
      then round32 (bw * spec_correction32 a p (spec_sizeBucket nb))
      else Finite bw)"
proof (cases "spec_sizeBucket nb < 22")
  case True
  then have b: "log2i (nb div 2 ^ 6) < 22" by (simp add: spec_sizeBucket_def)
  show ?thesis
    using True b
      round32_entry [OF treeCorrectionFactor_bounds [OF True, of p, THEN conjunct1]
          treeCorrectionFactor_bounds [OF True, of p, THEN conjunct2]]
      round32_entry [OF ringCorrectionFactor_bounds [OF True, of p, THEN conjunct1]
          ringCorrectionFactor_bounds [OF True, of p, THEN conjunct2]]
    by (cases a) (simp_all add: correctedBw32_def spec_correction32_def Let_def spec_sizeBucket_def)
next
  case False
  then show ?thesis by (cases a) (simp_all add: correctedBw32_def Let_def spec_sizeBucket_def)
qed

lemma divisor32_zero_iff:
  assumes "is_f32 bw" and "bw \<noteq> 0"
  shows "fmul32 (Finite 1000) (correctedBw32 bw nb a p) = Finite 0 \<longleftrightarrow>
         \<bar>bw * spec_correction32 a p (spec_sizeBucket nb)\<bar> \<le> 2 powi (- 150)"
proof (cases "a \<noteq> NCCL_ALGO_COLLNET \<and> spec_sizeBucket nb < 22")
  case True
  then show ?thesis by (simp add: correctedBw32_eq times_1000_zero_iff round32_zero_iff)
next
  case False
  then have one: "spec_correction32 a p (spec_sizeBucket nb) = 1"
    by (cases a) (auto simp: spec_correction32_def)
  from assms have r: "round32 bw = Finite bw" by (simp add: is_f32_def)
  from is_f32_nonzero [OF assms] have lo: "2 powi (- 149) \<le> \<bar>bw\<bar>" .
  have "(2::real) powi (- 150) < 2 powi (- 149)" by (simp add: power_int_minus)
  with lo have n: "\<not> \<bar>bw\<bar> \<le> 2 powi (- 150)" by linarith
  from False have c: "correctedBw32 bw nb a p = Finite bw" by (auto simp: correctedBw32_eq)
  from lo \<open>2 powi (- 150) < 2 powi (- 149)\<close> have "2 powi (- 150) < \<bar>1000 * bw\<bar>"
    by (simp add: abs_mult)
  then have "round32 (1000 * bw) \<noteq> Finite 0" by (simp add: round32_zero_iff)
  then show ?thesis using n by (simp add: c one)
qed

lemma divisor32_nonzero:
  assumes "2 powi (- 144) \<le> \<bar>bw\<bar>"
  shows "fmul32 (Finite 1000) (correctedBw32 bw nb a p) \<noteq> Finite 0"
proof -
  have p: "(2::real) powi (- 150) < 2 powi (- 149)" "(2::real) powi (- 144) * 2 powi (- 5) = 2 powi (- 149)"
    "(2::real) powi (- 149) \<le> 2 powi (- 144)"
    by (simp_all add: power_int_minus)
  show ?thesis
  proof (cases "a \<noteq> NCCL_ALGO_COLLNET \<and> spec_sizeBucket nb < 22")
    case True
    let ?f = "spec_correction32 a p (spec_sizeBucket nb)"
    from spec_correction32_bounds [of a p "spec_sizeBucket nb"] have f: "2 powi (- 5) \<le> ?f" by blast
    then have "0 \<le> ?f" using zero_le_power_int [of "2::real" "- 5"] by linarith
    then have "\<bar>bw * ?f\<bar> = \<bar>bw\<bar> * ?f" by (simp add: abs_mult)
    moreover have "2 powi (- 144) * 2 powi (- 5) \<le> \<bar>bw\<bar> * ?f"
      using assms f by (intro mult_mono) auto
    ultimately have "2 powi (- 150) < \<bar>bw * ?f\<bar>" using p by linarith
    then have "round32 (bw * ?f) \<noteq> Finite 0" by (simp add: round32_zero_iff)
    with True show ?thesis by (simp add: correctedBw32_eq times_1000_zero_iff)
  next
    case False
    from assms p have "2 powi (- 150) < \<bar>1000 * bw\<bar>" by (simp add: abs_mult)
    then have "round32 (1000 * bw) \<noteq> Finite 0" by (simp add: round32_zero_iff)
    with False show ?thesis by (auto simp: correctedBw32_eq)
  qed
qed

lemma rne_of_int [simp]: "rne (of_int m) = m"
  by (simp add: rne_def)

lemma rne_one [simp]: "rne 1 = 1"
  using rne_of_int [of 1] by simp

lemma f32_exponent_binade:
  "- 149 < e0 \<Longrightarrow> e0 \<le> 104 \<Longrightarrow> 2 powi (e0 + 23) \<le> \<bar>x\<bar> \<Longrightarrow> \<bar>x\<bar> < 2 powi (e0 + 24) \<Longrightarrow>
   f32_exponent x = e0"
  unfolding f32_exponent_def by (rule f32_exp_from_binade)

lemma is_f32_normal:
  assumes "- 149 < e0" and "e0 \<le> 104" and "2 powi (e0 + 23) \<le> \<bar>x\<bar>" and "\<bar>x\<bar> < 2 powi (e0 + 24)"
    and "x / 2 powi e0 = of_int m"
  shows "round32_fin x = x" and "is_f32 x"
proof -
  have e: "f32_exponent x = e0" using assms(1-4) by (rule f32_exponent_binade)
  have "round32_fin x = of_int m * 2 powi e0" by (simp add: round32_fin_def e assms(5))
  also have "\<dots> = x" using assms(5) by (simp add: field_simps)
  finally show r: "round32_fin x = x" .
  have "(2::real) powi (e0 + 24) \<le> 2 powi 128" using assms(2) by (intro power_int_increasing) auto
  with assms(4) have "\<not> 2 powi 128 \<le> \<bar>x\<bar>" by linarith
  then show "is_f32 x" by (simp add: is_f32_def round32_def r)
qed

lemma is_f32_min_subnormal: "is_f32 (1 / 2 ^ 149)"
proof -
  have s: "\<bar>1 / 2 ^ 149 :: real\<bar> < 2 powi (- 126)" by (simp add: power_int_minus)
  have e: "f32_exponent (1 / 2 ^ 149) = - 149" using s by (rule f32_exponent_small)
  have "(1 / 2 ^ 149 :: real) / 2 powi (- 149) = of_int 1" by (simp add: power_int_minus)
  then have r: "round32_fin (1 / 2 ^ 149) = 1 / 2 ^ 149"
    unfolding round32_fin_def e by (simp add: power_int_minus)
  show ?thesis unfolding is_f32_def round32_def r by (simp add: power_int_minus)
qed

lemma round32_fin_quarter: "round32_fin (1 / 4) = 1 / 4"
proof (rule is_f32_normal(1) [of "- 25" _ "2 ^ 23"])
  show "(1 / 4 :: real) / 2 powi (- 25) = of_int (2 ^ 23)" by (simp add: power_int_minus)
qed (simp_all add: power_int_minus)

lemma is_f32_ten: "is_f32 10"
proof (rule is_f32_normal(2) [of "- 20" _ "10 * 2 ^ 20"])
  show "(10 :: real) / 2 powi (- 20) = of_int (10 * 2 ^ 20)" by (simp add: power_int_minus)
qed (simp_all add: power_int_minus)

lemma bucket_20000: "spec_sizeBucket 20000 = 8"
  by (simp add: spec_sizeBucket_def log2i.simps)

text \<open>
  Claim C2, as stated: the sentinel is returned whenever the bandwidth cell is exactly 0,
  and in no case does \<^verbatim>\<open>ncclTopoGetAlgoTime\<close> (the spec's \<open>estimateTime\<close>) divide by
  zero. The second part fails: the cell \<open>1 / 2 ^ 149\<close>, the smallest positive binary32 value,
  is not 0 and passes the test of line 247; for Tree, Simple and 20000 bytes (bucket 8,
  factor 0.25) the product \<open>1 / 2 ^ 151\<close> rounds to 0, so \<open>1000 * bw\<close> is 0 and line 253
  divides by it.
\<close>

theorem algoTime_divisor_underflow:
  "is_f32 (1 / 2 ^ 149) \<and>
   bandwidths (flat_comm 2 (1 / 2 ^ 149) 5) ncclCollAllReduce NCCL_ALGO_TREE NCCL_PROTO_SIMPLE \<noteq> 0 \<and>
   algoTimeDivisor32 \<lparr>comm = flat_comm 2 (1 / 2 ^ 149) 5, coll = ncclCollAllReduce, nBytes = 20000\<rparr>
     NCCL_ALGO_TREE NCCL_PROTO_SIMPLE = Some (Finite 0)"
proof -
  have f: "spec_correction32 NCCL_ALGO_TREE NCCL_PROTO_SIMPLE 8 = 1 / 4"
    using round32_fin_quarter by (simp add: spec_correction32_def treeCorrectionFactor_def)
  have n: "(1 / 2 ^ 149 :: real) \<noteq> 0" by simp
  have u: "\<bar>(1 / 2 ^ 149 :: real) * (1 / 4)\<bar> \<le> 2 powi (- 150)" by (simp add: power_int_minus)
  have "fmul32 (Finite 1000) (correctedBw32 (1 / 2 ^ 149) 20000 NCCL_ALGO_TREE NCCL_PROTO_SIMPLE)
          = Finite 0"
    using divisor32_zero_iff [OF is_f32_min_subnormal n, of 20000 NCCL_ALGO_TREE NCCL_PROTO_SIMPLE] u
    by (simp only: bucket_20000 f)
  then show ?thesis
    using is_f32_min_subnormal by (simp add: algoTimeDivisor32_def flat_comm_def)
qed

text \<open>
  Claim C2, amended. When the bandwidth cell is exactly 0 the function returns
  \<^verbatim>\<open>ncclSuccess\<close> with the sentinel \<open>-1\<close> and does not divide. For a nonzero binary32
  cell the divisor of line 253 is 0 exactly when the product of the cell and the
  correction factor underflows, that is when its magnitude is at most \<open>1 / 2 ^ 150\<close>. So
  the function does not divide by zero for any cell of magnitude at least \<open>1 / 2 ^ 144\<close>,
  which covers every normal binary32 value.
\<close>

theorem algoTime_divisor_nonzero:
  "(bandwidths (comm info) (coll info) a p = 0 \<longrightarrow>
      ncclTopoGetAlgoTime info a p = (ncclSuccess, - 1) \<and> algoTimeDivisor32 info a p = None) \<and>
   (bandwidths (comm info) (coll info) a p \<noteq> 0 \<and> is_f32 (bandwidths (comm info) (coll info) a p) \<longrightarrow>
      (algoTimeDivisor32 info a p = Some (Finite 0) \<longleftrightarrow>
       \<bar>bandwidths (comm info) (coll info) a p *
          spec_correction32 a p (spec_sizeBucket (nBytes info))\<bar> \<le> 2 powi (- 150))) \<and>
   (2 powi (- 144) \<le> \<bar>bandwidths (comm info) (coll info) a p\<bar> \<longrightarrow>
      algoTimeDivisor32 info a p \<noteq> None \<and> algoTimeDivisor32 info a p \<noteq> Some (Finite 0))"
proof (intro conjI impI)
  assume "bandwidths (comm info) (coll info) a p = 0"
  then show "ncclTopoGetAlgoTime info a p = (ncclSuccess, - 1)"
    and "algoTimeDivisor32 info a p = None"
    by (simp_all add: ncclTopoGetAlgoTime_def algoTimeDivisor32_def)
next
  assume a: "bandwidths (comm info) (coll info) a p \<noteq> 0 \<and>
             is_f32 (bandwidths (comm info) (coll info) a p)"
  then show "algoTimeDivisor32 info a p = Some (Finite 0) \<longleftrightarrow>
       \<bar>bandwidths (comm info) (coll info) a p *
          spec_correction32 a p (spec_sizeBucket (nBytes info))\<bar> \<le> 2 powi (- 150)"
    using divisor32_zero_iff [of "bandwidths (comm info) (coll info) a p" "nBytes info" a p]
    by (simp add: algoTimeDivisor32_def)
next
  assume b: "2 powi (- 144) \<le> \<bar>bandwidths (comm info) (coll info) a p\<bar>"
  have "(0::real) < 2 powi (- 144)" by simp
  with b have n: "bandwidths (comm info) (coll info) a p \<noteq> 0" by auto
  from n show "algoTimeDivisor32 info a p \<noteq> None" by (simp add: algoTimeDivisor32_def)
  from n divisor32_nonzero [OF b, of "nBytes info" a p]
  show "algoTimeDivisor32 info a p \<noteq> Some (Finite 0)" by (simp add: algoTimeDivisor32_def)
qed

theorem algoTime_divisor_nonzero_witness:
  "ncclTopoGetAlgoTime \<lparr>comm = flat_comm 2 0 5, coll = ncclCollAllReduce, nBytes = 20000\<rparr>
     NCCL_ALGO_TREE NCCL_PROTO_SIMPLE = (ncclSuccess, - 1) \<and>
   algoTimeDivisor32 \<lparr>comm = flat_comm 2 0 5, coll = ncclCollAllReduce, nBytes = 20000\<rparr>
     NCCL_ALGO_TREE NCCL_PROTO_SIMPLE = None \<and>
   is_f32 10 \<and> 2 powi (- 144) \<le> \<bar>10 :: real\<bar> \<and>
   algoTimeDivisor32 \<lparr>comm = flat_comm 2 10 5, coll = ncclCollAllReduce, nBytes = 20000\<rparr>
     NCCL_ALGO_TREE NCCL_PROTO_SIMPLE \<noteq> Some (Finite 0) \<and>
   \<not> \<bar>10 * spec_correction32 NCCL_ALGO_TREE NCCL_PROTO_SIMPLE (spec_sizeBucket 20000)\<bar>
       \<le> 2 powi (- 150)"
proof -
  have z: "bandwidths (comm \<lparr>comm = flat_comm 2 0 5, coll = ncclCollAllReduce, nBytes = 20000\<rparr>)
             (coll \<lparr>comm = flat_comm 2 0 5, coll = ncclCollAllReduce, nBytes = 20000\<rparr>)
             NCCL_ALGO_TREE NCCL_PROTO_SIMPLE = 0"
    by (simp add: flat_comm_def)
  have t: "bandwidths (comm \<lparr>comm = flat_comm 2 10 5, coll = ncclCollAllReduce, nBytes = 20000\<rparr>)
             (coll \<lparr>comm = flat_comm 2 10 5, coll = ncclCollAllReduce, nBytes = 20000\<rparr>)
             NCCL_ALGO_TREE NCCL_PROTO_SIMPLE = 10"
    by (simp add: flat_comm_def)
  have b: "2 powi (- 144) \<le> \<bar>10 :: real\<bar>" by (simp add: power_int_minus)
  note w0 = algoTime_divisor_nonzero
      [of "\<lparr>comm = flat_comm 2 0 5, coll = ncclCollAllReduce, nBytes = 20000\<rparr>"
          NCCL_ALGO_TREE NCCL_PROTO_SIMPLE]
  note w1 = algoTime_divisor_nonzero
      [of "\<lparr>comm = flat_comm 2 10 5, coll = ncclCollAllReduce, nBytes = 20000\<rparr>"
          NCCL_ALGO_TREE NCCL_PROTO_SIMPLE]
  from w0 [THEN conjunct1, THEN mp, OF z]
  have s: "ncclTopoGetAlgoTime \<lparr>comm = flat_comm 2 0 5, coll = ncclCollAllReduce, nBytes = 20000\<rparr>
             NCCL_ALGO_TREE NCCL_PROTO_SIMPLE = (ncclSuccess, - 1) \<and>
           algoTimeDivisor32 \<lparr>comm = flat_comm 2 0 5, coll = ncclCollAllReduce, nBytes = 20000\<rparr>
             NCCL_ALGO_TREE NCCL_PROTO_SIMPLE = None" .
  from w1 [THEN conjunct2, THEN conjunct2] b
  have d: "algoTimeDivisor32 \<lparr>comm = flat_comm 2 10 5, coll = ncclCollAllReduce, nBytes = 20000\<rparr>
             NCCL_ALGO_TREE NCCL_PROTO_SIMPLE \<noteq> Some (Finite 0)"
    unfolding t by blast
  from w1 [THEN conjunct2, THEN conjunct1] is_f32_ten d
  have i: "\<not> \<bar>10 * spec_correction32 NCCL_ALGO_TREE NCCL_PROTO_SIMPLE (spec_sizeBucket 20000)\<bar>
       \<le> 2 powi (- 150)"
    unfolding t by simp
  from s is_f32_ten b d i show ?thesis by blast
qed

text \<open>
  Claim C3. When the bandwidth cell is not 0, the result is
  \<open>latency + byteCount / (1000 * (bandwidth * factor))\<close>, where the factor is the one the
  spec describes: with \<open>sizeBucket = log2i (byteCount >> 6)\<close>, the entry
  \<open>[protocol][sizeBucket]\<close> of the Tree or Ring correction table when \<open>sizeBucket < 22\<close>,
  and 1 for CollNet and for buckets from 22 on. For a byte count of at least 64 the bucket
  is \<open>floor (log2 (byteCount >> 6))\<close>; below 64 it is 0.
\<close>

theorem algoTime_formula:
  "(bandwidths (comm info) (coll info) a p \<noteq> 0 \<longrightarrow>
      ncclTopoGetAlgoTime info a p =
        (ncclSuccess,
         latencies (comm info) (coll info) a p +
           real (nBytes info) /
             (1000 * (bandwidths (comm info) (coll info) a p *
                        spec_correction a p (spec_sizeBucket (nBytes info)))))) \<and>
   (64 \<le> nBytes info \<longrightarrow>
      int (spec_sizeBucket (nBytes info)) = \<lfloor>log 2 (real (nBytes info div 2 ^ 6))\<rfloor>) \<and>
   (nBytes info < 64 \<longrightarrow> spec_sizeBucket (nBytes info) = 0)"
proof (intro conjI impI)
  assume "bandwidths (comm info) (coll info) a p \<noteq> 0"
  then show "ncclTopoGetAlgoTime info a p =
        (ncclSuccess,
         latencies (comm info) (coll info) a p +
           real (nBytes info) /
             (1000 * (bandwidths (comm info) (coll info) a p *
                        spec_correction a p (spec_sizeBucket (nBytes info)))))"
    by (rule algoTime_eq)
next
  assume "64 \<le> nBytes info"
  then have "0 < nBytes info div 2 ^ 6" by (simp add: div_greater_zero_iff)
  then show "int (spec_sizeBucket (nBytes info)) = \<lfloor>log 2 (real (nBytes info div 2 ^ 6))\<rfloor>"
    unfolding spec_sizeBucket_def by (rule log2i_floor_log)
next
  assume "nBytes info < 64"
  then show "spec_sizeBucket (nBytes info) = 0"
    by (simp add: spec_sizeBucket_def log2i.simps [of 0])
qed

theorem algoTime_formula_witness:
  "ncclTopoGetAlgoTime \<lparr>comm = flat_comm 2 10 5, coll = ncclCollAllReduce, nBytes = 32768\<rparr>
     NCCL_ALGO_TREE NCCL_PROTO_SIMPLE = (ncclSuccess, 5 + 32768 / (1000 * (10 * 0.39))) \<and>
   int (spec_sizeBucket 32768) = \<lfloor>log 2 (real (32768 div 2 ^ 6))\<rfloor> \<and>
   spec_sizeBucket 63 = 0"
proof -
  have b: "spec_sizeBucket 32768 = 9" by (simp add: spec_sizeBucket_def log2i.simps)
  have f: "spec_correction NCCL_ALGO_TREE NCCL_PROTO_SIMPLE 9 = 0.39"
    by (simp add: spec_correction_def treeCorrectionFactor_def)
  from algoTime_formula
      [of "\<lparr>comm = flat_comm 2 10 5, coll = ncclCollAllReduce, nBytes = 32768\<rparr>"
          NCCL_ALGO_TREE NCCL_PROTO_SIMPLE]
    algoTime_formula
      [of "\<lparr>comm = flat_comm 2 10 5, coll = ncclCollAllReduce, nBytes = 63\<rparr>"
          NCCL_ALGO_TREE NCCL_PROTO_SIMPLE]
  show ?thesis by (simp add: flat_comm_def b f)
qed

text \<open>
  Claim C4, as stated: for fixed kind, algorithm and protocol with a bandwidth that is
  not 0, the estimate never decreases when the byte count grows, bucket boundaries
  included. This fails: with bandwidth 10 and latency 5, Tree and Simple, 32767 bytes
  fall into bucket 8 (factor 0.25) and 32768 bytes into bucket 9 (factor 0.39), and the
  estimate drops from about 18.1 to about 13.4.
\<close>

theorem algoTime_not_monotone:
  "nBytes \<lparr>comm = flat_comm 2 10 5, coll = ncclCollAllReduce, nBytes = 32767\<rparr>
     \<le> nBytes \<lparr>comm = flat_comm 2 10 5, coll = ncclCollAllReduce, nBytes = 32768\<rparr> \<and>
   bandwidths (flat_comm 2 10 5) ncclCollAllReduce NCCL_ALGO_TREE NCCL_PROTO_SIMPLE \<noteq> 0 \<and>
   snd (ncclTopoGetAlgoTime \<lparr>comm = flat_comm 2 10 5, coll = ncclCollAllReduce, nBytes = 32768\<rparr>
          NCCL_ALGO_TREE NCCL_PROTO_SIMPLE)
   < snd (ncclTopoGetAlgoTime \<lparr>comm = flat_comm 2 10 5, coll = ncclCollAllReduce, nBytes = 32767\<rparr>
          NCCL_ALGO_TREE NCCL_PROTO_SIMPLE)"
  by (simp add: ncclTopoGetAlgoTime_def correctedBw_def flat_comm_def Let_def log2i.simps
      treeCorrectionFactor_def)

text \<open>
  Claim C4, amended. For fixed kind, algorithm and protocol with a positive bandwidth,
  the estimate at \<open>b1\<close> is at most the estimate at \<open>b2\<close> for byte counts \<open>b1 \<le> b2\<close>
  whose correction factor does not rise from \<open>b1\<close> to \<open>b2\<close>: in particular when both
  fall into the same size bucket, when the bucket of \<open>b1\<close> is at least 22, and for
  CollNet at all sizes.
\<close>

theorem algoTime_monotone:
  assumes "comm i1 = comm i2" and "coll i1 = coll i2" and "nBytes i1 \<le> nBytes i2"
    and "0 < bandwidths (comm i1) (coll i1) a p"
    and "spec_sizeBucket (nBytes i1) = spec_sizeBucket (nBytes i2) \<or> 22 \<le> spec_sizeBucket (nBytes i1) \<or>
         a = NCCL_ALGO_COLLNET \<or>
         spec_correction a p (spec_sizeBucket (nBytes i2)) \<le> spec_correction a p (spec_sizeBucket (nBytes i1))"
  shows "snd (ncclTopoGetAlgoTime i1 a p) \<le> snd (ncclTopoGetAlgoTime i2 a p)"
proof -
  let ?bw = "bandwidths (comm i1) (coll i1) a p"
  let ?f1 = "spec_correction a p (spec_sizeBucket (nBytes i1))"
  let ?f2 = "spec_correction a p (spec_sizeBucket (nBytes i2))"
  have le: "?f2 \<le> ?f1"
  proof -
    have "22 \<le> spec_sizeBucket (nBytes i1) \<Longrightarrow> ?thesis"
      using spec_sizeBucket_mono [OF assms(3)] by (simp add: spec_correction_beyond)
    moreover have "a = NCCL_ALGO_COLLNET \<Longrightarrow> ?thesis" by (simp add: spec_correction_def)
    ultimately show ?thesis using assms(5) by auto
  qed
  have pos: "0 < ?f2" by (rule spec_correction_pos)
  have "real (nBytes i1) / (1000 * (?bw * ?f1)) \<le> real (nBytes i2) / (1000 * (?bw * ?f2))"
  proof (rule frac_le)
    show "0 \<le> real (nBytes i2)" by simp
    show "real (nBytes i1) \<le> real (nBytes i2)" using assms(3) by simp
    show "0 < 1000 * (?bw * ?f2)" using assms(4) pos by simp
    show "1000 * (?bw * ?f2) \<le> 1000 * (?bw * ?f1)" using assms(4) le by simp
  qed
  then show ?thesis using assms(1,2,4) by (simp add: algoTime_eq)
qed

theorem algoTime_monotone_witness:
  "snd (ncclTopoGetAlgoTime \<lparr>comm = flat_comm 2 10 5, coll = ncclCollAllReduce, nBytes = 32768\<rparr>
          NCCL_ALGO_TREE NCCL_PROTO_SIMPLE)
   \<le> snd (ncclTopoGetAlgoTime \<lparr>comm = flat_comm 2 10 5, coll = ncclCollAllReduce, nBytes = 40000\<rparr>
          NCCL_ALGO_TREE NCCL_PROTO_SIMPLE)"
proof (rule algoTime_monotone)
  show "spec_sizeBucket (nBytes \<lparr>comm = flat_comm 2 10 5, coll = ncclCollAllReduce, nBytes = 32768\<rparr>) =
        spec_sizeBucket (nBytes \<lparr>comm = flat_comm 2 10 5, coll = ncclCollAllReduce, nBytes = 40000\<rparr>) \<or>
        22 \<le> spec_sizeBucket (nBytes \<lparr>comm = flat_comm 2 10 5, coll = ncclCollAllReduce, nBytes = 32768\<rparr>) \<or>
        NCCL_ALGO_TREE = NCCL_ALGO_COLLNET \<or>
        spec_correction NCCL_ALGO_TREE NCCL_PROTO_SIMPLE
          (spec_sizeBucket (nBytes \<lparr>comm = flat_comm 2 10 5, coll = ncclCollAllReduce, nBytes = 40000\<rparr>))
        \<le> spec_correction NCCL_ALGO_TREE NCCL_PROTO_SIMPLE
          (spec_sizeBucket (nBytes \<lparr>comm = flat_comm 2 10 5, coll = ncclCollAllReduce, nBytes = 32768\<rparr>))"
    by (simp add: spec_sizeBucket_def log2i.simps)
qed (simp_all add: flat_comm_def)

text \<open>
  The bandwidth has to be positive, not only different from 0: with the bandwidth \<open>-10\<close>
  (CollNet, so no correction) the estimate for 128 bytes is below the one for 64 bytes.
\<close>

lemma algoTime_negative_bandwidth:
  "snd (ncclTopoGetAlgoTime \<lparr>comm = flat_comm 2 (- 10) 5, coll = ncclCollAllReduce, nBytes = 128\<rparr>
          NCCL_ALGO_COLLNET NCCL_PROTO_SIMPLE)
   < snd (ncclTopoGetAlgoTime \<lparr>comm = flat_comm 2 (- 10) 5, coll = ncclCollAllReduce, nBytes = 64\<rparr>
          NCCL_ALGO_COLLNET NCCL_PROTO_SIMPLE)"
  by (simp add: ncclTopoGetAlgoTime_def correctedBw_def flat_comm_def Let_def)

text \<open>
  Claim C10. \<^verbatim>\<open>ncclTopoGetAlgoTime\<close> returns \<^verbatim>\<open>ncclSuccess\<close> for every input. An
  unusable combination (bandwidth cell 0) is reported only through the time, which is
  then \<open>-1\<close>; for a positive bandwidth and a latency that is not negative the time is
  not negative, so the sign of the time tells the two apart while the result code never
  does.
\<close>

theorem algoTime_always_success:
  "fst (ncclTopoGetAlgoTime info a p) = ncclSuccess \<and>
   (bandwidths (comm info) (coll info) a p = 0 \<longrightarrow> snd (ncclTopoGetAlgoTime info a p) = - 1) \<and>
   (0 < bandwidths (comm info) (coll info) a p \<and> 0 \<le> latencies (comm info) (coll info) a p \<longrightarrow>
      0 \<le> snd (ncclTopoGetAlgoTime info a p))"
proof (intro conjI impI)
  show "fst (ncclTopoGetAlgoTime info a p) = ncclSuccess"
    by (simp add: ncclTopoGetAlgoTime_def Let_def)
next
  assume "bandwidths (comm info) (coll info) a p = 0"
  then show "snd (ncclTopoGetAlgoTime info a p) = - 1"
    by (simp add: ncclTopoGetAlgoTime_def)
next
  assume a: "0 < bandwidths (comm info) (coll info) a p \<and>
             0 \<le> latencies (comm info) (coll info) a p"
  have "0 < spec_correction a p (spec_sizeBucket (nBytes info))" by (rule spec_correction_pos)
  with a have "0 \<le> real (nBytes info) /
      (1000 * (bandwidths (comm info) (coll info) a p *
                 spec_correction a p (spec_sizeBucket (nBytes info))))"
    by simp
  with a show "0 \<le> snd (ncclTopoGetAlgoTime info a p)"
    by (simp add: algoTime_eq)
qed

theorem algoTime_always_success_witness:
  "fst (ncclTopoGetAlgoTime \<lparr>comm = flat_comm 2 0 5, coll = ncclCollAllReduce, nBytes = 4096\<rparr>
          NCCL_ALGO_RING NCCL_PROTO_LL128) = ncclSuccess \<and>
   snd (ncclTopoGetAlgoTime \<lparr>comm = flat_comm 2 0 5, coll = ncclCollAllReduce, nBytes = 4096\<rparr>
          NCCL_ALGO_RING NCCL_PROTO_LL128) = - 1 \<and>
   0 \<le> snd (ncclTopoGetAlgoTime \<lparr>comm = flat_comm 2 10 5, coll = ncclCollAllReduce, nBytes = 4096\<rparr>
          NCCL_ALGO_RING NCCL_PROTO_LL128)"
  using algoTime_always_success
      [of "\<lparr>comm = flat_comm 2 0 5, coll = ncclCollAllReduce, nBytes = 4096\<rparr>"
          NCCL_ALGO_RING NCCL_PROTO_LL128]
    algoTime_always_success
      [of "\<lparr>comm = flat_comm 2 10 5, coll = ncclCollAllReduce, nBytes = 4096\<rparr>"
          NCCL_ALGO_RING NCCL_PROTO_LL128]
  by (simp add: flat_comm_def)

subsection \<open>Properties of ncclTopoSetThresholds\<close>

text \<open>Each loop writes only its own cells; the other fields are carried through.\<close>

lemma upd2_apply: "upd2 t a p v a' p' = (if a' = a \<and> p' = p then v else t a' p')"
  by (simp add: upd2_def)

lemma upd3_apply:
  "upd3 t c a p v c' a' p' = (if c' = c \<and> a' = a \<and> p' = p then v else t c' a' p')"
  by (simp add: upd3_def upd2_def)

lemma in_allColls [simp]: "c \<in> set allColls"
  by (cases c) (simp_all add: allColls_def)

lemma in_allAlgos [simp]: "a \<in> set allAlgos"
  by (cases a) (simp_all add: allAlgos_def)

lemma in_allProtos [simp]: "p \<in> set allProtos"
  by (cases p) (simp_all add: allProtos_def)

lemma in_allCells [simp]: "(c, a, p) \<in> set allCells"
proof -
  have "\<exists>x \<in> set allColls. \<exists>y \<in> set allAlgos. (c, a, p) \<in> (\<lambda>p. (x, y, p)) ` set allProtos"
    by (intro bexI [of _ c] bexI [of _ a] imageI) simp_all
  then show ?thesis by (simp add: allCells_def)
qed

lemma in_allAlgoProtos [simp]: "(a, p) \<in> set allAlgoProtos"
proof -
  have "\<exists>x \<in> set allAlgos. (a, p) \<in> Pair x ` set allProtos"
    by (intro bexI [of _ a] imageI) simp_all
  then show ?thesis by (simp add: allAlgoProtos_def)
qed

lemma setMaxThreads_frame [simp]:
  "nRanks (setMaxThreads k env rg cm) = nRanks cm"
  "nNodes (setMaxThreads k env rg cm) = nNodes cm"
  "rank (setMaxThreads k env rg cm) = rank cm"
  "bandwidths (setMaxThreads k env rg cm) = bandwidths cm"
  "latencies (setMaxThreads k env rg cm) = latencies cm"
  "threadThresholds (setMaxThreads k env rg cm) = threadThresholds cm"
  by (simp_all add: setMaxThreads_def Let_def)

lemma setMaxThreads_maxThreads:
  "maxThreads (setMaxThreads k env rg cm) a p =
     (case p of
        NCCL_PROTO_SIMPLE \<Rightarrow>
          snd (getNthreads k ''NCCL_NTHREADS'' (ncclParamNthreads env) (4 * WARP_SIZE k)
                 (NCCL_MAX_NTHREADS k)
                 (if a = NCCL_ALGO_RING
                  then (if speedIntra rg * of_int (nChannels rg) \<le> PCI_WIDTH k then 256
                        else NCCL_MAX_NTHREADS k)
                  else NCCL_MAX_NTHREADS k))
      | NCCL_PROTO_LL \<Rightarrow>
          snd (getNthreads k ''NCCL_NTHREADS'' (ncclParamNthreads env) (4 * WARP_SIZE k)
                 (NCCL_MAX_NTHREADS k) (NCCL_MAX_NTHREADS k))
      | NCCL_PROTO_LL128 \<Rightarrow>
          snd (getNthreads k ''NCCL_LL128_NTHREADS'' (ncclParamLl128Nthreads env)
                 (NCCL_LL128_MAX_NTHREADS k div 4) (NCCL_LL128_MAX_NTHREADS k)
                 (NCCL_LL128_MAX_NTHREADS k)))"
  by (cases a; cases p) (simp_all add: setMaxThreads_def Let_def upd2_apply)

lemma modelCell_frame [simp]:
  "nRanks (modelCell k g rg c a p cm) = nRanks cm"
  "nNodes (modelCell k g rg c a p cm) = nNodes cm"
  "rank (modelCell k g rg c a p cm) = rank cm"
  "maxThreads (modelCell k g rg c a p cm) = maxThreads cm"
  "threadThresholds (modelCell k g rg c a p cm) = threadThresholds cm"
  by (simp_all add: modelCell_def)

lemma modelCell_bandwidths:
  "bandwidths (modelCell k g rg c a p cm) c' a' p' =
     (if c' = c \<and> a' = a \<and> p' = p then busBw g (nNodes cm) c a p * ratio (nRanks cm) c a
      else bandwidths cm c' a' p')"
  by (simp add: modelCell_def upd3_apply)

lemma modelCell_latencies:
  "latencies (modelCell k g rg c a p cm) c' a' p' =
     (if c' = c \<and> a' = a \<and> p' = p then cellLatency k g rg (nRanks cm) (nNodes cm) c a p
      else latencies cm c' a' p')"
  by (simp add: modelCell_def upd3_apply)

lemma modelProtos_frame [simp]:
  "nRanks (modelProtos k g rg c a ps cm) = nRanks cm"
  "nNodes (modelProtos k g rg c a ps cm) = nNodes cm"
  "rank (modelProtos k g rg c a ps cm) = rank cm"
  "maxThreads (modelProtos k g rg c a ps cm) = maxThreads cm"
  "threadThresholds (modelProtos k g rg c a ps cm) = threadThresholds cm"
  unfolding modelProtos_def by (induction ps arbitrary: cm; simp)+

lemma modelProtos_bandwidths:
  "bandwidths (modelProtos k g rg c a ps cm) c' a' p' =
     (if c' = c \<and> a' = a \<and> p' \<in> set ps then busBw g (nNodes cm) c a p' * ratio (nRanks cm) c a
      else bandwidths cm c' a' p')"
proof (induction ps arbitrary: cm)
  case Nil
  show ?case by (simp add: modelProtos_def)
next
  case (Cons q ps)
  have "modelProtos k g rg c a (q # ps) cm = modelProtos k g rg c a ps (modelCell k g rg c a q cm)"
    by (simp add: modelProtos_def)
  then show ?case by (auto simp: Cons.IH modelCell_bandwidths)
qed

lemma modelProtos_latencies:
  "latencies (modelProtos k g rg c a ps cm) c' a' p' =
     (if c' = c \<and> a' = a \<and> p' \<in> set ps then cellLatency k g rg (nRanks cm) (nNodes cm) c a p'
      else latencies cm c' a' p')"
proof (induction ps arbitrary: cm)
  case Nil
  show ?case by (simp add: modelProtos_def)
next
  case (Cons q ps)
  have "modelProtos k g rg c a (q # ps) cm = modelProtos k g rg c a ps (modelCell k g rg c a q cm)"
    by (simp add: modelProtos_def)
  then show ?case by (auto simp: Cons.IH modelCell_latencies)
qed

lemma modelAlgos_frame [simp]:
  "nRanks (modelAlgos k g rg c as cm) = nRanks cm"
  "nNodes (modelAlgos k g rg c as cm) = nNodes cm"
  "rank (modelAlgos k g rg c as cm) = rank cm"
  "maxThreads (modelAlgos k g rg c as cm) = maxThreads cm"
  "threadThresholds (modelAlgos k g rg c as cm) = threadThresholds cm"
  unfolding modelAlgos_def by (induction as arbitrary: cm; simp)+

lemma modelAlgos_bandwidths:
  "bandwidths (modelAlgos k g rg c as cm) c' a' p' =
     (if c' = c \<and> a' \<in> set as \<and> spec_applies c a'
      then busBw g (nNodes cm) c a' p' * ratio (nRanks cm) c a'
      else bandwidths cm c' a' p')"
proof (induction as arbitrary: cm)
  case Nil
  show ?case by (simp add: modelAlgos_def)
next
  case (Cons b as)
  have "modelAlgos k g rg c (b # as) cm =
        modelAlgos k g rg c as
          (if c \<noteq> ncclCollAllReduce \<and> b \<noteq> NCCL_ALGO_RING then cm
           else modelProtos k g rg c b allProtos cm)"
    by (simp add: modelAlgos_def)
  then show ?case by (auto simp: Cons.IH modelProtos_bandwidths spec_applies_def)
qed

lemma modelAlgos_latencies:
  "latencies (modelAlgos k g rg c as cm) c' a' p' =
     (if c' = c \<and> a' \<in> set as \<and> spec_applies c a'
      then cellLatency k g rg (nRanks cm) (nNodes cm) c a' p'
      else latencies cm c' a' p')"
proof (induction as arbitrary: cm)
  case Nil
  show ?case by (simp add: modelAlgos_def)
next
  case (Cons b as)
  have "modelAlgos k g rg c (b # as) cm =
        modelAlgos k g rg c as
          (if c \<noteq> ncclCollAllReduce \<and> b \<noteq> NCCL_ALGO_RING then cm
           else modelProtos k g rg c b allProtos cm)"
    by (simp add: modelAlgos_def)
  then show ?case by (auto simp: Cons.IH modelProtos_latencies spec_applies_def)
qed

lemma modelTables_frame [simp]:
  "nRanks (modelTables k g rg cs cm) = nRanks cm"
  "nNodes (modelTables k g rg cs cm) = nNodes cm"
  "rank (modelTables k g rg cs cm) = rank cm"
  "maxThreads (modelTables k g rg cs cm) = maxThreads cm"
  "threadThresholds (modelTables k g rg cs cm) = threadThresholds cm"
  unfolding modelTables_def by (induction cs arbitrary: cm; simp)+

lemma modelTables_bandwidths:
  "bandwidths (modelTables k g rg cs cm) c a p =
     (if c \<in> set cs \<and> spec_applies c a
      then busBw g (nNodes cm) c a p * ratio (nRanks cm) c a
      else bandwidths cm c a p)"
proof (induction cs arbitrary: cm)
  case Nil
  show ?case by (simp add: modelTables_def)
next
  case (Cons d cs)
  have "modelTables k g rg (d # cs) cm = modelTables k g rg cs (modelAlgos k g rg d allAlgos cm)"
    by (simp add: modelTables_def)
  then show ?case by (auto simp: Cons.IH modelAlgos_bandwidths)
qed

lemma modelTables_latencies:
  "latencies (modelTables k g rg cs cm) c a p =
     (if c \<in> set cs \<and> spec_applies c a
      then cellLatency k g rg (nRanks cm) (nNodes cm) c a p
      else latencies cm c a p)"
proof (induction cs arbitrary: cm)
  case Nil
  show ?case by (simp add: modelTables_def)
next
  case (Cons d cs)
  have "modelTables k g rg (d # cs) cm = modelTables k g rg cs (modelAlgos k g rg d allAlgos cm)"
    by (simp add: modelTables_def)
  then show ?case by (auto simp: Cons.IH modelAlgos_latencies)
qed

lemma enableCell_frame [simp]:
  "nRanks (enableCell k g mn mx pe ae x cm) = nRanks cm"
  "nNodes (enableCell k g mn mx pe ae x cm) = nNodes cm"
  "rank (enableCell k g mn mx pe ae x cm) = rank cm"
  "maxThreads (enableCell k g mn mx pe ae x cm) = maxThreads cm"
  "latencies (enableCell k g mn mx pe ae x cm) = latencies cm"
  "threadThresholds (enableCell k g mn mx pe ae x cm) = threadThresholds cm"
  by (simp_all add: enableCell_def split: prod.splits)

lemma enableCell_bandwidths:
  "bandwidths (enableCell k g mn mx pe ae x cm) c a p =
     (if x = (c, a, p) \<and> (pEnable k g mn mx pe a p = 0 \<or> ae ! algoIdx a = 0) then 0
      else bandwidths cm c a p)"
  by (auto simp: enableCell_def upd3_apply split: prod.splits)

lemma fold_enableCell_frame [simp]:
  "nRanks (fold (enableCell k g mn mx pe ae) xs cm) = nRanks cm"
  "nNodes (fold (enableCell k g mn mx pe ae) xs cm) = nNodes cm"
  "rank (fold (enableCell k g mn mx pe ae) xs cm) = rank cm"
  "maxThreads (fold (enableCell k g mn mx pe ae) xs cm) = maxThreads cm"
  "latencies (fold (enableCell k g mn mx pe ae) xs cm) = latencies cm"
  "threadThresholds (fold (enableCell k g mn mx pe ae) xs cm) = threadThresholds cm"
  by (induction xs arbitrary: cm; simp)+

lemma applyEnables_frame [simp]:
  "nRanks (applyEnables k g mn mx pe ae cm) = nRanks cm"
  "nNodes (applyEnables k g mn mx pe ae cm) = nNodes cm"
  "rank (applyEnables k g mn mx pe ae cm) = rank cm"
  "maxThreads (applyEnables k g mn mx pe ae cm) = maxThreads cm"
  "latencies (applyEnables k g mn mx pe ae cm) = latencies cm"
  "threadThresholds (applyEnables k g mn mx pe ae cm) = threadThresholds cm"
  by (simp_all add: applyEnables_def)

lemma fold_enableCell_bandwidths:
  "bandwidths (fold (enableCell k g mn mx pe ae) xs cm) c a p =
     (if (c, a, p) \<in> set xs \<and> (pEnable k g mn mx pe a p = 0 \<or> ae ! algoIdx a = 0) then 0
      else bandwidths cm c a p)"
  by (induction xs arbitrary: cm) (auto simp: enableCell_bandwidths)

lemma applyEnables_bandwidths:
  "bandwidths (applyEnables k g mn mx pe ae cm) c a p =
     (if pEnable k g mn mx pe a p = 0 \<or> ae ! algoIdx a = 0 then 0 else bandwidths cm c a p)"
  by (simp add: applyEnables_def fold_enableCell_bandwidths)

lemma defaultThresholds_frame [simp]:
  "nRanks (defaultThresholds k cm) = nRanks cm"
  "nNodes (defaultThresholds k cm) = nNodes cm"
  "rank (defaultThresholds k cm) = rank cm"
  "maxThreads (defaultThresholds k cm) = maxThreads cm"
  "bandwidths (defaultThresholds k cm) = bandwidths cm"
  "latencies (defaultThresholds k cm) = latencies cm"
  by (simp_all add: defaultThresholds_def Let_def allAlgos_def)

lemma defaultThresholds_thresholds:
  "threadThresholds (defaultThresholds k cm) a p = computedThreshold k (nRanks cm) a p"
  by (cases a; cases p)
     (simp_all add: defaultThresholds_def Let_def allAlgos_def upd2_apply computedThreshold_def)

lemma fold_override_frame [simp]:
  "nRanks (fold (\<lambda>(a, p) cm. if P a p then cm\<lparr>threadThresholds := upd2 (threadThresholds cm) a p (v a p)\<rparr> else cm) xs cm) = nRanks cm"
  "nNodes (fold (\<lambda>(a, p) cm. if P a p then cm\<lparr>threadThresholds := upd2 (threadThresholds cm) a p (v a p)\<rparr> else cm) xs cm) = nNodes cm"
  "rank (fold (\<lambda>(a, p) cm. if P a p then cm\<lparr>threadThresholds := upd2 (threadThresholds cm) a p (v a p)\<rparr> else cm) xs cm) = rank cm"
  "maxThreads (fold (\<lambda>(a, p) cm. if P a p then cm\<lparr>threadThresholds := upd2 (threadThresholds cm) a p (v a p)\<rparr> else cm) xs cm) = maxThreads cm"
  "bandwidths (fold (\<lambda>(a, p) cm. if P a p then cm\<lparr>threadThresholds := upd2 (threadThresholds cm) a p (v a p)\<rparr> else cm) xs cm) = bandwidths cm"
  "latencies (fold (\<lambda>(a, p) cm. if P a p then cm\<lparr>threadThresholds := upd2 (threadThresholds cm) a p (v a p)\<rparr> else cm) xs cm) = latencies cm"
  by (induction xs arbitrary: cm; simp split: prod.splits)+

lemma fold_override_thresholds:
  "threadThresholds (fold (\<lambda>(a, p) cm. if P a p then cm\<lparr>threadThresholds := upd2 (threadThresholds cm) a p (v a p)\<rparr> else cm) xs cm) a p =
     (if (a, p) \<in> set xs \<and> P a p then v a p else threadThresholds cm a p)"
  by (induction xs arbitrary: cm) (auto simp: upd2_apply split: prod.splits)

lemma overrideThresholds_frame [simp]:
  "nRanks (overrideThresholds env cm) = nRanks cm"
  "nNodes (overrideThresholds env cm) = nNodes cm"
  "rank (overrideThresholds env cm) = rank cm"
  "maxThreads (overrideThresholds env cm) = maxThreads cm"
  "bandwidths (overrideThresholds env cm) = bandwidths cm"
  "latencies (overrideThresholds env cm) = latencies cm"
  by (simp_all add: overrideThresholds_def Let_def split: option.splits)

lemma overrideThresholds_thresholds:
  "threadThresholds (overrideThresholds env cm) a p =
     (case NCCL_THREAD_THRESHOLDS env of
        None \<Rightarrow> threadThresholds cm a p
      | Some str \<Rightarrow>
          (if scanThresholds str ! algoIdx a ! protoIdx p \<ge> 0
           then scanThresholds str ! algoIdx a ! protoIdx p
           else threadThresholds cm a p))"
  by (simp add: overrideThresholds_def Let_def fold_override_thresholds split: option.splits)

lemma fold_store_row2:
  assumes "\<forall>x \<in> set xs. fst (fst x) < 2"
  shows "fold (\<lambda>((a, p), v) t. t[a := (t ! a)[p := v]]) xs t ! 2 = t ! 2"
  using assms by (induction xs arbitrary: t) (auto split: prod.splits)

lemma scanThresholds_collnet: "scanThresholds str ! 2 = [0, 0, 0]"
proof -
  have "\<forall>x \<in> set (zip sscanf_targets (sscanf_ld 6 str)). fst (fst x) < 2"
  proof
    fix x assume "x \<in> set (zip sscanf_targets (sscanf_ld 6 str))"
    then have "(fst x, snd x) \<in> set (zip sscanf_targets (sscanf_ld 6 str))" by simp
    then have "fst x \<in> set sscanf_targets" by (rule set_zip_leftD)
    then show "fst (fst x) < 2" by (auto simp: sscanf_targets_def)
  qed
  then show ?thesis
    by (simp add: scanThresholds_def fold_store_row2 thresholds_t0_def)
qed

lemma scanThresholds_example:
  "scanThresholds ''1000 2000 3000 4000 5000 6000'' =
     [[1000, 2000, 3000], [4000, 5000, 6000], [0, 0, 0]]"
  by code_simp

lemma readEnable_success [simp]:
  "fst (readProtoEnable env) = ncclSuccess" "fst (readAlgoEnable env) = ncclSuccess"
  by (simp_all add: readProtoEnable_def readAlgoEnable_def parseList_eq split: option.splits)

lemma setThresholds_single:
  "nRanks cm \<le> 1 \<Longrightarrow>
   ncclTopoSetThresholds k env cm mn mx tg rg cg = (ncclSuccess, setMaxThreads k env rg cm)"
  by (simp add: ncclTopoSetThresholds_def Let_def)

lemma setThresholds_multi:
  "1 < nRanks cm \<Longrightarrow>
   ncclTopoSetThresholds k env cm mn mx tg rg cg =
     (ncclSuccess,
      overrideThresholds env (defaultThresholds k
        (applyEnables k (graphsOf tg rg cg) mn mx
           (snd (readProtoEnable env)) (snd (readAlgoEnable env))
           (modelTables k (graphsOf tg rg cg) rg allColls (setMaxThreads k env rg cm)))))"
proof -
  assume a: "1 < nRanks cm"
  obtain r1 pe where p: "readProtoEnable env = (r1, pe)" by (cases "readProtoEnable env")
  obtain r2 ae where q: "readAlgoEnable env = (r2, ae)" by (cases "readAlgoEnable env")
  from p readEnable_success(1) [of env] have r1: "r1 = ncclSuccess" by simp
  from q readEnable_success(2) [of env] have r2: "r2 = ncclSuccess" by simp
  show ?thesis using a p q r1 r2 by (simp add: ncclTopoSetThresholds_def Let_def)
qed

lemma setThresholds_bandwidths:
  "1 < nRanks cm \<Longrightarrow>
   bandwidths (snd (ncclTopoSetThresholds k env cm mn mx tg rg cg)) c a p =
     (if disabled k (graphsOf tg rg cg) mn mx env a p then 0
      else if spec_applies c a
      then busBw (graphsOf tg rg cg) (nNodes cm) c a p * ratio (nRanks cm) c a
      else bandwidths cm c a p)"
  by (simp add: setThresholds_multi applyEnables_bandwidths modelTables_bandwidths disabled_def)

lemma setThresholds_thresholds:
  "1 < nRanks cm \<Longrightarrow>
   threadThresholds (snd (ncclTopoSetThresholds k env cm mn mx tg rg cg)) a p =
     (case NCCL_THREAD_THRESHOLDS env of
        None \<Rightarrow> computedThreshold k (nRanks cm) a p
      | Some str \<Rightarrow>
          (if scanThresholds str ! algoIdx a ! protoIdx p \<ge> 0
           then scanThresholds str ! algoIdx a ! protoIdx p
           else computedThreshold k (nRanks cm) a p))"
  by (simp add: setThresholds_multi overrideThresholds_thresholds defaultThresholds_thresholds
      split: option.splits)

lemma ratio_spec:
  "ratio n c a = (if a = NCCL_ALGO_RING then of_int n / of_int (spec_nsteps n c) else 0.5)"
  by (cases c) (simp_all add: ratio_def nsteps_def spec_nsteps_def)

lemma spec_nsteps_pos: "1 < n \<Longrightarrow> 0 < spec_nsteps n c"
  by (cases c) (simp_all add: spec_nsteps_def)

lemma example_enables:
  "readProtoEnable (example_env None algo thr) = (ncclSuccess, [1, 2, 1])"
  "readAlgoEnable (example_env proto None thr) = (ncclSuccess, [1, 1, 1])"
  by (simp_all add: readProtoEnable_def readAlgoEnable_def example_env_def)

lemma parse_no_LL128: "snd (parseList ''^LL128'' ncclProtoStr [1, 2, 1]) = [1, 0, 1]"
  by (simp add: parseList_eq spec_negated_def spec_listed_def tokens_def setMatching_def
      strcasecmp_eq_def tolower_c_def ncclProtoStr_def)

text \<open>
  Claim C7. For a communicator with at most one rank, \<^verbatim>\<open>ncclTopoSetThresholds\<close> (the
  spec's \<open>buildThresholds\<close>) returns \<^verbatim>\<open>ncclSuccess\<close> right after the thread ceilings
  are resolved: the bandwidth table, the latency table and the thread thresholds are the
  ones before the call, and every \<open>maxThreads\<close> cell holds the value that
  \<^verbatim>\<open>getNthreads\<close> resolves for it.
\<close>

theorem single_member_untouched:
  "nRanks cm \<le> 1 \<longrightarrow>
     fst (ncclTopoSetThresholds k env cm mn mx tg rg cg) = ncclSuccess \<and>
     bandwidths (snd (ncclTopoSetThresholds k env cm mn mx tg rg cg)) = bandwidths cm \<and>
     latencies (snd (ncclTopoSetThresholds k env cm mn mx tg rg cg)) = latencies cm \<and>
     threadThresholds (snd (ncclTopoSetThresholds k env cm mn mx tg rg cg)) = threadThresholds cm \<and>
     snd (ncclTopoSetThresholds k env cm mn mx tg rg cg) = setMaxThreads k env rg cm \<and>
     maxThreads (snd (ncclTopoSetThresholds k env cm mn mx tg rg cg)) a p =
       (case p of
          NCCL_PROTO_SIMPLE \<Rightarrow>
            snd (getNthreads k ''NCCL_NTHREADS'' (ncclParamNthreads env) (4 * WARP_SIZE k)
                   (NCCL_MAX_NTHREADS k)
                   (if a = NCCL_ALGO_RING
                    then (if speedIntra rg * of_int (nChannels rg) \<le> PCI_WIDTH k then 256
                          else NCCL_MAX_NTHREADS k)
                    else NCCL_MAX_NTHREADS k))
        | NCCL_PROTO_LL \<Rightarrow>
            snd (getNthreads k ''NCCL_NTHREADS'' (ncclParamNthreads env) (4 * WARP_SIZE k)
                   (NCCL_MAX_NTHREADS k) (NCCL_MAX_NTHREADS k))
        | NCCL_PROTO_LL128 \<Rightarrow>
            snd (getNthreads k ''NCCL_LL128_NTHREADS'' (ncclParamLl128Nthreads env)
                   (NCCL_LL128_MAX_NTHREADS k div 4) (NCCL_LL128_MAX_NTHREADS k)
                   (NCCL_LL128_MAX_NTHREADS k)))"
  by (simp add: setThresholds_single setMaxThreads_maxThreads)

theorem single_member_untouched_witness:
  "nRanks (flat_comm 1 10 5) \<le> 1 \<and>
   fst (ncclTopoSetThresholds example_consts (example_env (Some ''^LL128'') None None)
          (flat_comm 1 10 5) 70 70 example_graph example_graph example_graph) = ncclSuccess \<and>
   bandwidths (snd (ncclTopoSetThresholds example_consts (example_env (Some ''^LL128'') None None)
          (flat_comm 1 10 5) 70 70 example_graph example_graph example_graph)) = (\<lambda>c a p. 10) \<and>
   latencies (snd (ncclTopoSetThresholds example_consts (example_env (Some ''^LL128'') None None)
          (flat_comm 1 10 5) 70 70 example_graph example_graph example_graph)) = (\<lambda>c a p. 5) \<and>
   maxThreads (snd (ncclTopoSetThresholds example_consts (example_env (Some ''^LL128'') None None)
          (flat_comm 1 10 5) 70 70 example_graph example_graph example_graph))
      NCCL_ALGO_RING NCCL_PROTO_SIMPLE = 256"
proof -
  have n: "nRanks (flat_comm 1 10 5) \<le> 1" by (simp add: flat_comm_def)
  have b: "bandwidths (flat_comm 1 10 5) = (\<lambda>c a p. 10)"
    and l: "latencies (flat_comm 1 10 5) = (\<lambda>c a p. 5)"
    by (simp_all add: flat_comm_def)
  have m: "snd (getNthreads example_consts ''NCCL_NTHREADS''
                  (ncclParamNthreads (example_env (Some ''^LL128'') None None))
                  (4 * WARP_SIZE example_consts) (NCCL_MAX_NTHREADS example_consts)
                  (if speedIntra example_graph * of_int (nChannels example_graph)
                        \<le> PCI_WIDTH example_consts then 256
                   else NCCL_MAX_NTHREADS example_consts)) = 256"
    by (simp add: getNthreads_def example_env_def example_consts_def example_graph_def)
  note t = single_member_untouched
      [of "flat_comm 1 10 5" example_consts "example_env (Some ''^LL128'') None None" 70 70
          example_graph example_graph example_graph NCCL_ALGO_RING NCCL_PROTO_SIMPLE,
       THEN mp, OF n]
  from t [THEN conjunct1] t [THEN conjunct2, THEN conjunct1]
    t [THEN conjunct2, THEN conjunct2, THEN conjunct1]
    t [THEN conjunct2, THEN conjunct2, THEN conjunct2, THEN conjunct2, THEN conjunct2]
  show ?thesis using n b l m by simp
qed

text \<open>
  Claim C8. For a communicator with more than one rank, the model loops store a
  bandwidth exactly in the cells whose algorithm applies to the kind (every algorithm for
  AllReduce, only Ring for the other kinds) and leave the other cells as they were. The
  value stored is the bus bandwidth times \<open>ranks / nsteps\<close> for Ring and times 0.5 for
  the other algorithms, with \<open>nsteps = 2 * (ranks - 1)\<close> for AllReduce, \<open>ranks - 1\<close>
  for ReduceScatter and AllGather and \<open>ranks\<close> otherwise; \<open>nsteps\<close> is positive. After
  the whole function a cell holds that value, or its previous value where the algorithm
  does not apply, unless its protocol or algorithm is disabled, which makes it 0.
\<close>

theorem bandwidth_population:
  "1 < nRanks cm \<longrightarrow>
     0 < spec_nsteps (nRanks cm) c \<and>
     bandwidths (modelTables k (graphsOf tg rg cg) rg allColls (setMaxThreads k env rg cm)) c a p =
       (if spec_applies c a
        then busBw (graphsOf tg rg cg) (nNodes cm) c a p *
               (if a = NCCL_ALGO_RING
                then of_int (nRanks cm) / of_int (spec_nsteps (nRanks cm) c) else 0.5)
        else bandwidths cm c a p) \<and>
     bandwidths (snd (ncclTopoSetThresholds k env cm mn mx tg rg cg)) c a p =
       (if disabled k (graphsOf tg rg cg) mn mx env a p then 0
        else if spec_applies c a
        then busBw (graphsOf tg rg cg) (nNodes cm) c a p *
               (if a = NCCL_ALGO_RING
                then of_int (nRanks cm) / of_int (spec_nsteps (nRanks cm) c) else 0.5)
        else bandwidths cm c a p)"
  by (simp add: setThresholds_bandwidths modelTables_bandwidths ratio_spec spec_nsteps_pos)

theorem bandwidth_population_witness:
  "1 < nRanks (flat_comm 2 10 5) \<and>
   bandwidths (snd (ncclTopoSetThresholds example_consts (example_env None None None)
          (flat_comm 2 10 5) 70 70 example_graph example_graph example_graph))
      ncclCollAllReduce NCCL_ALGO_RING NCCL_PROTO_SIMPLE = 48 \<and>
   bandwidths (snd (ncclTopoSetThresholds example_consts (example_env None None None)
          (flat_comm 2 10 5) 70 70 example_graph example_graph example_graph))
      ncclCollBroadcast NCCL_ALGO_TREE NCCL_PROTO_SIMPLE = 10"
proof -
  have n: "1 < nRanks (flat_comm 2 10 5)" by (simp add: flat_comm_def)
  have d: "\<not> disabled example_consts (graphsOf example_graph example_graph example_graph) 70 70
             (example_env None None None) a NCCL_PROTO_SIMPLE" for a
    by (cases a) (simp_all add: disabled_def example_enables pEnable_def)
  have b: "busBw (graphsOf example_graph example_graph example_graph) (nNodes (flat_comm 2 10 5))
             ncclCollAllReduce NCCL_ALGO_RING NCCL_PROTO_SIMPLE = 48"
    by (simp add: busBw_def graphsOf_def example_graph_def flat_comm_def)
  have s: "spec_nsteps 2 ncclCollAllReduce = 2"
    by (simp add: spec_nsteps_def)
  have r: "nRanks (flat_comm 2 10 5) = 2" "bandwidths (flat_comm 2 10 5) = (\<lambda>c a p. 10)"
    by (simp_all add: flat_comm_def)
  from bandwidth_population
      [of "flat_comm 2 10 5" ncclCollAllReduce example_consts example_graph example_graph
          example_graph "example_env None None None" NCCL_ALGO_RING NCCL_PROTO_SIMPLE 70 70]
    bandwidth_population
      [of "flat_comm 2 10 5" ncclCollBroadcast example_consts example_graph example_graph
          example_graph "example_env None None None" NCCL_ALGO_TREE NCCL_PROTO_SIMPLE 70 70]
  show ?thesis using n by (simp add: d b s r spec_applies_def)
qed

text \<open>
  Claim C9, as stated: after \<^verbatim>\<open>ncclTopoSetThresholds\<close> every bandwidth cell of a
  disabled protocol or algorithm is 0, and with the protocol list \<open>^LL128\<close> the time
  estimate of every LL128 request is the sentinel. This fails for a communicator with a
  single rank: line 91 returns before the tables are touched, so an LL128 cell that held
  10 still holds 10 and the estimate is an ordinary time.
\<close>

theorem single_member_not_zeroed:
  "NCCL_PROTO (example_env (Some ''^LL128'') None None) = Some ''^LL128'' \<and>
   bandwidths (snd (ncclTopoSetThresholds example_consts (example_env (Some ''^LL128'') None None)
          (flat_comm 1 10 5) 70 70 example_graph example_graph example_graph))
      ncclCollAllReduce NCCL_ALGO_RING NCCL_PROTO_LL128 = 10 \<and>
   ncclTopoGetAlgoTime
     \<lparr>comm = snd (ncclTopoSetThresholds example_consts (example_env (Some ''^LL128'') None None)
               (flat_comm 1 10 5) 70 70 example_graph example_graph example_graph),
      coll = ncclCollAllReduce, nBytes = 4096\<rparr> NCCL_ALGO_RING NCCL_PROTO_LL128
     = (ncclSuccess, 5 + 4096 / 2500)"
proof -
  have s: "snd (ncclTopoSetThresholds example_consts (example_env (Some ''^LL128'') None None)
          (flat_comm 1 10 5) 70 70 example_graph example_graph example_graph)
        = setMaxThreads example_consts (example_env (Some ''^LL128'') None None) example_graph
            (flat_comm 1 10 5)"
    by (simp add: setThresholds_single flat_comm_def)
  have f: "spec_sizeBucket 4096 = 6" by (simp add: spec_sizeBucket_def log2i.simps)
  show ?thesis
    unfolding s
    by (simp add: ncclTopoGetAlgoTime_def correctedBw_eq f spec_correction_def Let_def
        ringCorrectionFactor_def flat_comm_def example_env_def)
qed

text \<open>
  Claim C9, amended. For a communicator with more than one rank, after
  \<^verbatim>\<open>ncclTopoSetThresholds\<close> a bandwidth cell \<open>(kind, algorithm, protocol)\<close> is 0, and
  the time estimate for it is the sentinel, whenever line 168 finds the protocol or the
  algorithm disabled: the protocol list or the algorithm list from the environment gives
  it the entry 0, or, with no protocol list, the protocol is LL128 and the graph of that
  algorithm fails the automatic condition (inter-node link type at most PCI, intra-node
  link type NVLink, minimum and maximum compute capability both 70). With the protocol
  list \<open>^LL128\<close> every LL128 cell is 0 and every LL128 estimate is the sentinel.
\<close>

theorem disabled_cells_zero:
  assumes "1 < nRanks cm"
    and "cm' = snd (ncclTopoSetThresholds k env cm mn mx tg rg cg)"
    and "graphs = graphsOf tg rg cg"
  shows
   "(disabled k graphs mn mx env a p \<longrightarrow>
       bandwidths cm' c a p = 0 \<and>
       ncclTopoGetAlgoTime \<lparr>comm = cm', coll = c, nBytes = n\<rparr> a p = (ncclSuccess, - 1)) \<and>
    (\<forall>s. NCCL_PROTO env = Some s \<and> snd (parseList s ncclProtoStr [1, 2, 1]) ! protoIdx p = 0
          \<longrightarrow> bandwidths cm' c a p = 0) \<and>
    (\<forall>s. NCCL_ALGO env = Some s \<and> snd (parseList s ncclAlgoStr [1, 1, 1]) ! algoIdx a = 0
          \<longrightarrow> bandwidths cm' c a p = 0) \<and>
    (NCCL_PROTO env = None \<and>
     \<not> (typeInter (graphs a) \<le> LINK_PCI k \<and> typeIntra (graphs a) = LINK_NVL k \<and>
        mn = 70 \<and> mx = 70)
       \<longrightarrow> bandwidths cm' c a NCCL_PROTO_LL128 = 0) \<and>
    (NCCL_PROTO env = Some ''^LL128'' \<longrightarrow>
       bandwidths cm' c a NCCL_PROTO_LL128 = 0 \<and>
       ncclTopoGetAlgoTime \<lparr>comm = cm', coll = c, nBytes = n\<rparr> a NCCL_PROTO_LL128
         = (ncclSuccess, - 1))"
proof -
  have z: "bandwidths cm' c a q = 0" if "disabled k graphs mn mx env a q" for q
    using that assms by (simp add: setThresholds_bandwidths)
  have t: "ncclTopoGetAlgoTime \<lparr>comm = cm', coll = c, nBytes = n\<rparr> a q = (ncclSuccess, - 1)"
    if "disabled k graphs mn mx env a q" for q
    using z [OF that] by (simp add: ncclTopoGetAlgoTime_def)
  have p1: "disabled k graphs mn mx env a p"
    if "NCCL_PROTO env = Some s" "snd (parseList s ncclProtoStr [1, 2, 1]) ! protoIdx p = 0" for s
    using that by (simp add: disabled_def pEnable_def readProtoEnable_def)
  have p2: "disabled k graphs mn mx env a p"
    if "NCCL_ALGO env = Some s" "snd (parseList s ncclAlgoStr [1, 1, 1]) ! algoIdx a = 0" for s
    using that by (simp add: disabled_def readAlgoEnable_def)
  have p3: "disabled k graphs mn mx env a NCCL_PROTO_LL128"
    if "NCCL_PROTO env = None"
      "\<not> (typeInter (graphs a) \<le> LINK_PCI k \<and> typeIntra (graphs a) = LINK_NVL k \<and>
          mn = 70 \<and> mx = 70)"
    using that by (auto simp: disabled_def pEnable_def readProtoEnable_def)
  have p4: "disabled k graphs mn mx env a NCCL_PROTO_LL128" if "NCCL_PROTO env = Some ''^LL128''"
    using that by (simp add: disabled_def pEnable_def readProtoEnable_def parse_no_LL128)
  show ?thesis using z t p1 p2 p3 p4 by blast
qed

theorem disabled_cells_zero_witness:
  "1 < nRanks (flat_comm 2 10 5) \<and>
   bandwidths (snd (ncclTopoSetThresholds example_consts (example_env (Some ''^LL128'') None None)
          (flat_comm 2 10 5) 70 70 example_graph example_graph example_graph))
      ncclCollAllReduce NCCL_ALGO_RING NCCL_PROTO_LL128 = 0 \<and>
   ncclTopoGetAlgoTime
     \<lparr>comm = snd (ncclTopoSetThresholds example_consts (example_env (Some ''^LL128'') None None)
               (flat_comm 2 10 5) 70 70 example_graph example_graph example_graph),
      coll = ncclCollAllReduce, nBytes = 4096\<rparr> NCCL_ALGO_RING NCCL_PROTO_LL128
     = (ncclSuccess, - 1)"
proof -
  have n: "1 < nRanks (flat_comm 2 10 5)" by (simp add: flat_comm_def)
  have e: "NCCL_PROTO (example_env (Some ''^LL128'') None None) = Some ''^LL128''"
    by (simp add: example_env_def)
  from disabled_cells_zero [OF n refl refl,
      of example_consts example_graph example_graph example_graph 70 70
         "example_env (Some ''^LL128'') None None" NCCL_ALGO_RING NCCL_PROTO_LL128
         ncclCollAllReduce 4096]
  show ?thesis using n e by blast
qed

text \<open>
  Whenever the threshold variable is set, whatever its text, the three CollNet
  thresholds of a communicator with more than one rank become 0: the third row of
  \<^verbatim>\<open>t\<close> is zero-initialised, \<^verbatim>\<open>sscanf\<close> never writes it, and \<open>0 \<ge> 0\<close> passes the
  test of line 213.
\<close>

lemma override_zeroes_collnet:
  "1 < nRanks cm \<Longrightarrow> NCCL_THREAD_THRESHOLDS env = Some str \<Longrightarrow>
   threadThresholds (snd (ncclTopoSetThresholds k env cm mn mx tg rg cg)) NCCL_ALGO_COLLNET p = 0"
  by (cases p) (simp_all add: setThresholds_thresholds scanThresholds_collnet)

text \<open>
  Claim C1, evaluated on the code. With the override text
  \<open>1000 2000 3000 4000 5000 6000\<close> on a communicator of two ranks, the thresholds of Tree
  and Ring become 1000, 2000, 3000 and 4000, 5000, 6000 as the claim says, but the three
  CollNet thresholds become 0, while the values computed without the override are 8, 8
  and 64 (with the defaults 8, 8, 64 of the header constants).
\<close>

theorem thresholds_override_collnet:
  "map (\<lambda>(a, p). threadThresholds
          (snd (ncclTopoSetThresholds example_consts
                  (example_env None None (Some ''1000 2000 3000 4000 5000 6000''))
                  (flat_comm 2 10 5) 70 70 example_graph example_graph example_graph)) a p)
       allAlgoProtos
     = [1000, 2000, 3000, 4000, 5000, 6000, 0, 0, 0] \<and>
   map (\<lambda>(a, p). threadThresholds
          (snd (ncclTopoSetThresholds example_consts (example_env None None None)
                  (flat_comm 2 10 5) 70 70 example_graph example_graph example_graph)) a p)
       allAlgoProtos
     = [8, 8, 64, 16, 8, 64, 8, 8, 64]"
proof -
  have n: "1 < nRanks (flat_comm 2 10 5)" by (simp add: flat_comm_def)
  show ?thesis
    by (simp add: setThresholds_thresholds [OF n] allAlgoProtos_def allAlgos_def allProtos_def
        example_env_def scanThresholds_example computedThreshold_def example_consts_def)
       (simp add: flat_comm_def)
qed

end
